theory Spec2Isabelle
  imports Complex_Main "HOL-Library.Multiset"
begin

section \<open>Python values and errors\<close>

text \<open>
  The two scraper modules, \<^verbatim>\<open>playwright_scanner.py\<close> (the stand-alone scanner) and
  \<^verbatim>\<open>playwright_multi_page_analyzer.py\<close> (the embeddable analyzer), are modelled side by
  side. Definitions carry the prefix \<open>scanner_\<close> or \<open>analyzer_\<close> of the module they
  come from. Exceptions that escape a function are values of \<open>error\<close>.
\<close>

type_synonym wallet = string

datatype error = ZeroDivisionError | IndexError | BrowserLaunchError | OSError

section \<open>Work distribution\<close>

text \<open>
  \<^verbatim>\<open>chunks[k].append(wallet)\<close> with Python's list indexing: a negative index counts
  from the end, an index out of range raises IndexError.
\<close>

definition chunk_append :: "wallet list list \<Rightarrow> int \<Rightarrow> wallet \<Rightarrow> error + wallet list list" where
  "chunk_append chunks k w =
     (let n = int (length chunks); j = (if k < 0 then n + k else k)
      in if 0 \<le> j \<and> j < n then Inr (chunks[nat j := chunks ! nat j @ [w]])
         else Inl IndexError)"

text \<open>
  The loop \<^verbatim>\<open>for idx, wallet in enumerate(wallets): chunks[idx % n].append(wallet)\<close>.
  Python's \<^verbatim>\<open>%\<close> raises ZeroDivisionError for a zero divisor and otherwise takes the
  sign of the divisor, as \<open>mod\<close> on \<open>int\<close> does.
\<close>

fun distribute_loop :: "int \<Rightarrow> nat \<Rightarrow> wallet list \<Rightarrow> wallet list list \<Rightarrow> error + wallet list list" where
  "distribute_loop n idx [] chunks = Inr chunks"
| "distribute_loop n idx (w # ws) chunks =
     (if n = 0 then Inl ZeroDivisionError
      else case chunk_append chunks (int idx mod n) w of
             Inl e \<Rightarrow> Inl e
           | Inr chunks' \<Rightarrow> distribute_loop n (Suc idx) ws chunks')"

text \<open>
  \<^verbatim>\<open>PlaywrightWalletScanner.distribute_wallets\<close>: \<^verbatim>\<open>range(num_pages)\<close> is empty for
  \<open>num_pages \<le> 0\<close>.
\<close>

definition scanner_distribute_wallets :: "int \<Rightarrow> wallet list \<Rightarrow> error + wallet list list" where
  "scanner_distribute_wallets num_pages wallets =
     distribute_loop num_pages 0 wallets (replicate (nat num_pages) [])"

text \<open>\<^verbatim>\<open>PlaywrightMultiPageAnalyzer._distribute_wallets\<close>.\<close>

definition analyzer_distribute_wallets :: "wallet list \<Rightarrow> int \<Rightarrow> error + wallet list list" where
  "analyzer_distribute_wallets wallets num_pages =
     (if wallets = [] then Inr []
      else let actual_pages = min num_pages (int (length wallets))
           in distribute_loop actual_pages 0 wallets (replicate (nat actual_pages) []))"

text \<open>
  The pages \<^verbatim>\<open>run\<close> opens, in both modules:
  \<^verbatim>\<open>[await context.new_page() for _ in range(num_pages)]\<close>; the analyzer wraps page \<open>i\<close> in
  \<^verbatim>\<open>PageWorker(page, i, config)\<close>. A page is its index; there is none for \<open>num_pages \<le> 0\<close>.
\<close>

definition create_pages :: "int \<Rightarrow> nat list" where
  "create_pages num_pages = [0..<nat num_pages]"

text \<open>
  The tasks \<^verbatim>\<open>run\<close> creates, in both modules:
  \<^verbatim>\<open>[... for i, (page, chunk) in enumerate(zip(pages, wallet_chunks)) if chunk]\<close>.
\<close>

definition worker_tasks :: "nat list \<Rightarrow> wallet list list \<Rightarrow> (nat \<times> wallet list) list" where
  "worker_tasks pages chunks = filter (\<lambda>(i, chunk). chunk \<noteq> []) (zip pages chunks)"

text \<open>
  The shard of worker \<open>k\<close> among \<open>n\<close>, written from the words of the specification: the
  wallets at the input indices \<open>i\<close> with \<open>i mod n = k\<close>, in increasing order of \<open>i\<close>.
\<close>

definition round_robin_shard :: "nat \<Rightarrow> nat \<Rightarrow> wallet list \<Rightarrow> wallet list" where
  "round_robin_shard n k ws = map (\<lambda>i. ws ! i) (filter (\<lambda>i. i mod n = k) [0..<length ws])"


section \<open>The page and the library, as seen by the engine\<close>

text \<open>
  The browser page, the regular-expression engine and \<^verbatim>\<open>float\<close> are not code of the
  repository. A \<open>page_obs\<close> holds what the Playwright calls of one attempt on one wallet
  return; \<open>None\<close> stands for a call that raises (a timeout, a closed page).
  \<open>WaitTimeout content\<close> is a wait for the statistics selector that timed out, with the result
  of the following \<^verbatim>\<open>page.content()\<close>.
\<close>

datatype wait_outcome = SelectorFound | WaitTimeout "string option" | WaitFailed

record page_obs =
  goto_ok :: bool
  wait :: wait_outcome
  winrate_locator :: "string option"
  pnl_locator :: "string option"
  winrate_content :: "string option"
  pnl_content :: "string option"
  debug_content :: "string option"

text \<open>
  The regular expressions of the source, by name (all of them have one group):
  \<^item> \<open>ScannerWinrateNumber\<close>: \<^verbatim>\<open>([\d\.,]+)\<close>
  \<^item> \<open>ScannerWinrateHtml\<close>: \<^verbatim>\<open>Win Rate\s*</h3>\s*<p[^>]*>\s*([\d\.,]+)\s*%?\<close>, ignoring case
  \<^item> \<open>ScannerPnlParen\<close>: \<^verbatim>\<open>\(([\d\.,]+)%\)\<close>
  \<^item> \<open>ScannerPnlPercent\<close>: \<^verbatim>\<open>([\d\.,]+)%\<close>
  \<^item> \<open>ScannerPnlHtml\<close>: \<^verbatim>\<open>Realized\s*</p>\s*<p[^>]*>\s*\$[\d\.,]+\s*\(([\d\.,]+)%\)\<close>, ignoring case
  \<^item> \<open>AnalyzerWinratePrimary\<close>: \<^verbatim>\<open>Win Rate</h3><p[^>]*text-2xl[^>]*>([\d\.]+)%\<close>, ignoring case
  \<^item> \<open>AnalyzerWinrateSimple\<close>: \<^verbatim>\<open>Win Rate[^<]*<[^>]*>([\d\.]+)%\<close>, ignoring case
  \<^item> \<open>AnalyzerPnlPrimary\<close>:
    \<^verbatim>\<open>Realized</p><p[^>]*>\$[\d,\.]+\s*<span[^>]*>\(([\d\.]+)%\)</span>\<close>, ignoring case
  \<^item> \<open>AnalyzerPnlSimple\<close>: \<^verbatim>\<open>Realized[^\$]*\$[\d,\.]+[^\(]*\(([\d\.]+)%\)\<close>, ignoring case
\<close>

datatype pattern =
    ScannerWinrateNumber | ScannerWinrateHtml
  | ScannerPnlParen | ScannerPnlPercent | ScannerPnlHtml
  | AnalyzerWinratePrimary | AnalyzerWinrateSimple
  | AnalyzerPnlPrimary | AnalyzerPnlSimple

text \<open>
  \<open>re_search p text\<close> is \<^verbatim>\<open>re.search(p, text)\<close>: \<open>None\<close> when nothing matches, else
  \<^verbatim>\<open>match.group(1)\<close>. \<open>py_float s\<close> is \<^verbatim>\<open>float(s)\<close>: \<open>None\<close> for ValueError, else the
  real number the resulting double denotes, so that \<open>\<le>\<close> on \<open>real\<close> is the comparison of the
  two doubles.
\<close>

record pylib =
  re_search :: "pattern \<Rightarrow> string \<Rightarrow> string option"
  py_float :: "string \<Rightarrow> real option"

text \<open>\<^verbatim>\<open>s.replace(',', '')\<close>\<close>

definition remove_commas :: "string \<Rightarrow> string" where
  "remove_commas s = filter (\<lambda>c. c \<noteq> CHR '','') s"

section \<open>Metric extraction\<close>

text \<open>
  \<^verbatim>\<open>PlaywrightWalletScanner.extract_winrate\<close>. The regular expression on the page's HTML is
  the \<^verbatim>\<open>except\<close> branch: it runs when the locator or \<^verbatim>\<open>float\<close> raises, and not when the
  locator's number is out of range.
\<close>

definition scanner_winrate_fallback :: "pylib \<Rightarrow> page_obs \<Rightarrow> real option" where
  "scanner_winrate_fallback L obs =
     (case winrate_content obs of
        None \<Rightarrow> None
      | Some html \<Rightarrow>
          (case re_search L ScannerWinrateHtml html of
             None \<Rightarrow> None
           | Some g \<Rightarrow>
               (case py_float L (remove_commas g) of
                  None \<Rightarrow> None
                | Some v \<Rightarrow> if 0 \<le> v \<and> v \<le> 100 then Some v else None)))"

definition scanner_extract_winrate :: "pylib \<Rightarrow> page_obs \<Rightarrow> real option" where
  "scanner_extract_winrate L obs =
     (case winrate_locator obs of
        None \<Rightarrow> scanner_winrate_fallback L obs
      | Some text \<Rightarrow>
          (case re_search L ScannerWinrateNumber text of
             None \<Rightarrow> None
           | Some g \<Rightarrow>
               (case py_float L (remove_commas g) of
                  None \<Rightarrow> scanner_winrate_fallback L obs
                | Some v \<Rightarrow> if 0 \<le> v \<and> v \<le> 100 then Some v else None)))"

text \<open>\<^verbatim>\<open>PlaywrightWalletScanner.extract_realized_pnl\<close>\<close>

definition scanner_pnl_fallback :: "pylib \<Rightarrow> page_obs \<Rightarrow> real option" where
  "scanner_pnl_fallback L obs =
     (case pnl_content obs of
        None \<Rightarrow> None
      | Some html \<Rightarrow>
          (case re_search L ScannerPnlHtml html of
             None \<Rightarrow> None
           | Some g \<Rightarrow> py_float L (remove_commas g)))"

definition scanner_extract_realized_pnl :: "pylib \<Rightarrow> page_obs \<Rightarrow> real option" where
  "scanner_extract_realized_pnl L obs =
     (case pnl_locator obs of
        None \<Rightarrow> scanner_pnl_fallback L obs
      | Some text \<Rightarrow>
          (case re_search L ScannerPnlParen text of
             Some g \<Rightarrow>
               (case py_float L (remove_commas g) of
                  None \<Rightarrow> scanner_pnl_fallback L obs
                | Some percentage \<Rightarrow> Some percentage)
           | None \<Rightarrow>
               (case re_search L ScannerPnlPercent text of
                  Some g \<Rightarrow>
                    (case py_float L (remove_commas g) of
                       None \<Rightarrow> scanner_pnl_fallback L obs
                     | Some percentage \<Rightarrow> Some percentage)
                | None \<Rightarrow> None)))"

text \<open>
  \<^verbatim>\<open>PageWorker._extract_winrate\<close>: one \<^verbatim>\<open>try\<close> around both patterns, so a ValueError of
  \<^verbatim>\<open>float\<close> ends the extraction with \<^verbatim>\<open>None\<close>.
\<close>

definition analyzer_winrate_simple :: "pylib \<Rightarrow> string \<Rightarrow> real option" where
  "analyzer_winrate_simple L html =
     (case re_search L AnalyzerWinrateSimple html of
        None \<Rightarrow> None
      | Some g \<Rightarrow>
          (case py_float L g of
             None \<Rightarrow> None
           | Some v \<Rightarrow> if 0 \<le> v \<and> v \<le> 100 then Some v else None))"

definition analyzer_extract_winrate :: "pylib \<Rightarrow> page_obs \<Rightarrow> real option" where
  "analyzer_extract_winrate L obs =
     (case winrate_content obs of
        None \<Rightarrow> None
      | Some html \<Rightarrow>
          (case re_search L AnalyzerWinratePrimary html of
             None \<Rightarrow> analyzer_winrate_simple L html
           | Some g \<Rightarrow>
               (case py_float L g of
                  None \<Rightarrow> None
                | Some v \<Rightarrow> if 0 \<le> v \<and> v \<le> 100 then Some v
                            else analyzer_winrate_simple L html)))"

text \<open>\<^verbatim>\<open>PageWorker._extract_realized_pnl\<close>\<close>

definition analyzer_extract_realized_pnl :: "pylib \<Rightarrow> page_obs \<Rightarrow> real option" where
  "analyzer_extract_realized_pnl L obs =
     (case pnl_content obs of
        None \<Rightarrow> None
      | Some html \<Rightarrow>
          (case re_search L AnalyzerPnlPrimary html of
             Some g \<Rightarrow> py_float L g
           | None \<Rightarrow>
               (case re_search L AnalyzerPnlSimple html of
                  Some g \<Rightarrow> py_float L g
                | None \<Rightarrow> None)))"

section \<open>Evaluation of one wallet\<close>

text \<open>\<^verbatim>\<open>str.lower\<close> on ASCII letters (other characters are left as they are).\<close>

definition py_lower :: "string \<Rightarrow> string" where
  "py_lower s = map (\<lambda>c. let n = (of_char c :: nat)
                          in if 65 \<le> n \<and> n \<le> 90 then char_of (n + 32) else c) s"

fun starts_with :: "string \<Rightarrow> string \<Rightarrow> bool" where
  "starts_with [] s = True"
| "starts_with (p # ps) [] = False"
| "starts_with (p # ps) (c # cs) = (p = c \<and> starts_with ps cs)"

text \<open>\<^verbatim>\<open>needle in haystack\<close> on strings.\<close>

fun py_in :: "string \<Rightarrow> string \<Rightarrow> bool" where
  "py_in needle [] = (needle = [])"
| "py_in needle (c # cs) = (starts_with needle (c # cs) \<or> py_in needle cs)"

text \<open>
  \<^verbatim>\<open>_wait_for_data_with_timeout\<close>, the same in both modules. Both branches after the test
  for the "no data" marker return False, as in the source.
\<close>

definition wait_for_data_with_timeout :: "wait_outcome \<Rightarrow> bool" where
  "wait_for_data_with_timeout out =
     (case out of
        SelectorFound \<Rightarrow> True
      | WaitTimeout content \<Rightarrow>
          (case content of
             None \<Rightarrow> False
           | Some page_text \<Rightarrow>
               if py_in ''no data for this wallet'' (py_lower page_text)
                  \<or> py_in ''not a wallet address'' (py_lower page_text)
               then False
               else False)
      | WaitFailed \<Rightarrow> False)"

text \<open>
  The dictionary an evaluation returns. \<open>r_winrate\<close> and \<open>r_realizedPnL\<close> stand for the
  entries \<^verbatim>\<open>f"{winrate}%"\<close> and \<^verbatim>\<open>f"{realized_pnl}%"\<close>, \<open>r_status\<close> for the analyzer's
  \<^verbatim>\<open>"status"\<close> entry (the scanner's dictionary has none; its \<^verbatim>\<open>"timestamp"\<close> entry, which
  no code reads back, is left out).
\<close>

record wallet_result =
  r_wallet :: wallet
  r_winrate :: real
  r_realizedPnL :: real
  r_status :: "string option"

record scanner_config =
  sc_num_pages :: int
  sc_min_winrate :: real
  sc_min_pnl :: real

record analyzer_config =
  num_pages :: int
  wallets :: "wallet list"
  min_winrate :: real
  min_realized_pnl :: real

definition max_retries :: nat where
  "max_retries = 3"

text \<open>What one iteration of \<^verbatim>\<open>for attempt in range(max_retries)\<close> does.\<close>

datatype 'a iteration = Return 'a | Continue

text \<open>
  The three places that end an attempt of the scanner early read
  \<^verbatim>\<open>if attempt < max_retries - 1: await asyncio.sleep(2); continue\<close> and
  \<^verbatim>\<open>else: return None\<close>.
\<close>

definition retry_or_give_up :: "nat \<Rightarrow> wallet_result option iteration" where
  "retry_or_give_up attempt = (if attempt < max_retries - 1 then Continue else Return None)"

text \<open>The body of the loop of \<^verbatim>\<open>PlaywrightWalletScanner.analyze_wallet\<close>.\<close>

definition scanner_attempt ::
  "pylib \<Rightarrow> scanner_config \<Rightarrow> wallet \<Rightarrow> nat \<Rightarrow> page_obs \<Rightarrow> wallet_result option iteration" where
  "scanner_attempt L cfg wallet attempt obs =
     (if \<not> goto_ok obs then retry_or_give_up attempt
      else if \<not> wait_for_data_with_timeout (wait obs) then retry_or_give_up attempt
      else
        (case (scanner_extract_winrate L obs, scanner_extract_realized_pnl L obs) of
           (Some winrate, Some realized_pnl) \<Rightarrow>
             if winrate \<ge> sc_min_winrate cfg \<and> realized_pnl \<ge> sc_min_pnl cfg
             then Return (Some \<lparr>r_wallet = wallet, r_winrate = winrate,
                                r_realizedPnL = realized_pnl, r_status = None\<rparr>)
             else Return None
         | _ \<Rightarrow> retry_or_give_up attempt))"

text \<open>
  The loop itself; the second component of the result counts the attempts made, each of
  which starts with one \<^verbatim>\<open>page.goto\<close>.
\<close>

function scanner_analyze_loop ::
  "pylib \<Rightarrow> scanner_config \<Rightarrow> wallet \<Rightarrow> (nat \<Rightarrow> page_obs) \<Rightarrow> nat \<Rightarrow> wallet_result option \<times> nat" where
  "scanner_analyze_loop L cfg wallet obs attempt =
     (if attempt < max_retries then
        (case scanner_attempt L cfg wallet attempt (obs attempt) of
           Return r \<Rightarrow> (r, Suc attempt)
         | Continue \<Rightarrow> scanner_analyze_loop L cfg wallet obs (Suc attempt))
      else (None, attempt))"
  by pat_completeness auto
termination
  by (relation "measure (\<lambda>(L, cfg, wallet, obs, attempt). max_retries - attempt)") auto

definition scanner_analyze_wallet ::
  "pylib \<Rightarrow> scanner_config \<Rightarrow> wallet \<Rightarrow> (nat \<Rightarrow> page_obs) \<Rightarrow> wallet_result option \<times> nat" where
  "scanner_analyze_wallet L cfg wallet obs = scanner_analyze_loop L cfg wallet obs 0"

text \<open>
  The body of the loop of \<^verbatim>\<open>PageWorker.analyze_wallet\<close>. A wait that fails returns
  \<^verbatim>\<open>None\<close> at once; the debugging block of the first attempt reads the page again, which
  can raise.
\<close>

definition analyzer_attempt ::
  "pylib \<Rightarrow> analyzer_config \<Rightarrow> wallet \<Rightarrow> nat \<Rightarrow> page_obs \<Rightarrow> wallet_result option iteration" where
  "analyzer_attempt L cfg wallet_address attempt obs =
     (if \<not> goto_ok obs then retry_or_give_up attempt
      else if \<not> wait_for_data_with_timeout (wait obs) then Return None
      else
        (let winrate = analyzer_extract_winrate L obs;
             realized_pnl = analyzer_extract_realized_pnl L obs
         in if attempt = 0 \<and> (winrate = None \<or> realized_pnl = None) \<and> debug_content obs = None
            then retry_or_give_up attempt
            else
              (case (winrate, realized_pnl) of
                 (Some wr, Some pnl) \<Rightarrow>
                   if wr \<ge> min_winrate cfg \<and> pnl \<ge> min_realized_pnl cfg
                   then Return (Some \<lparr>r_wallet = wallet_address, r_winrate = wr,
                                      r_realizedPnL = pnl, r_status = Some ''passed''\<rparr>)
                   else Return (Some \<lparr>r_wallet = wallet_address, r_winrate = wr,
                                      r_realizedPnL = pnl, r_status = Some ''failed_criteria''\<rparr>)
               | _ \<Rightarrow> retry_or_give_up attempt)))"

function analyzer_analyze_loop ::
  "pylib \<Rightarrow> analyzer_config \<Rightarrow> wallet \<Rightarrow> (nat \<Rightarrow> page_obs) \<Rightarrow> nat \<Rightarrow> wallet_result option \<times> nat" where
  "analyzer_analyze_loop L cfg wallet_address obs attempt =
     (if attempt < max_retries then
        (case analyzer_attempt L cfg wallet_address attempt (obs attempt) of
           Return r \<Rightarrow> (r, Suc attempt)
         | Continue \<Rightarrow> analyzer_analyze_loop L cfg wallet_address obs (Suc attempt))
      else (None, attempt))"
  by pat_completeness auto
termination
  by (relation "measure (\<lambda>(L, cfg, wallet_address, obs, attempt). max_retries - attempt)") auto

definition analyzer_analyze_wallet ::
  "pylib \<Rightarrow> analyzer_config \<Rightarrow> wallet \<Rightarrow> (nat \<Rightarrow> page_obs) \<Rightarrow> wallet_result option \<times> nat" where
  "analyzer_analyze_wallet L cfg wallet_address obs = analyzer_analyze_loop L cfg wallet_address obs 0"

section \<open>The two files: the scan ledger and the result set\<close>

text \<open>
  \<open>scanned_file\<close> is the text of \<^verbatim>\<open>data/scanned_wallets.txt\<close> and \<open>good_wallets_file\<close> the list
  that \<^verbatim>\<open>json.load\<close> reads from \<^verbatim>\<open>good_wallets.json\<close>; \<open>None\<close> is a file that does not
  exist. The four flags say whether opening the file for reading or for writing succeeds:
  the source catches the exception where it does not.
\<close>

record disk =
  scanned_file :: "string option"
  scanned_readable :: bool
  scanned_writable :: bool
  good_wallets_file :: "wallet_result list option"
  good_readable :: bool
  good_writable :: bool

text \<open>\<^verbatim>\<open>str(n)\<close> for a natural number.\<close>

definition digit_char :: "nat \<Rightarrow> char" where
  "digit_char d = char_of (48 + d)"

fun str_nat :: "nat \<Rightarrow> string" where
  "str_nat n = (if n < 10 then [digit_char n] else str_nat (n div 10) @ [digit_char (n mod 10)])"

declare str_nat.simps [simp del]

text \<open>
  \<^verbatim>\<open>str.isspace\<close> on the characters below 256, and \<^verbatim>\<open>str.strip()\<close>.
\<close>

definition is_space :: "char \<Rightarrow> bool" where
  "is_space c = (of_char c \<in> set [9, 10, 11, 12, 13, 28, 29, 30, 31, 32, 133, 160 :: nat])"

definition py_strip :: "string \<Rightarrow> string" where
  "py_strip s = rev (dropWhile is_space (rev (dropWhile is_space s)))"

text \<open>
  The lines of a text file opened in text mode, without their terminators. A file read with
  universal newlines ends a line at \<^verbatim>\<open>\n\<close>, \<^verbatim>\<open>\r\<close> and \<^verbatim>\<open>\r\n\<close>; here \<^verbatim>\<open>\r\n\<close> gives one
  more, empty, line, which the only reader of the lines skips.
\<close>

definition is_newline :: "char \<Rightarrow> bool" where
  "is_newline c = (c = CHR 0x0A \<or> c = CHR 0x0D)"

fun file_lines :: "string \<Rightarrow> string list" where
  "file_lines [] = []"
| "file_lines (c # cs) =
     (if is_newline c then [] # file_lines cs
      else case file_lines cs of [] \<Rightarrow> [[c]] | l # ls \<Rightarrow> (c # l) # ls)"

text \<open>The body of the loop of \<^verbatim>\<open>load_scanned_wallets\<close> on one line.\<close>

definition parse_scanned_line :: "string \<Rightarrow> wallet option" where
  "parse_scanned_line raw =
     (let line = py_strip raw
      in if line \<noteq> [] \<and> CHR ''|'' \<in> set line
         then Some (takeWhile (\<lambda>c. c \<noteq> CHR ''|'') line)
         else None)"

text \<open>\<^verbatim>\<open>load_scanned_wallets\<close> and \<^verbatim>\<open>save_scanned_wallet\<close>, the same in both modules.\<close>

definition load_scanned_wallets :: "disk \<Rightarrow> wallet set" where
  "load_scanned_wallets d =
     (case scanned_file d of
        None \<Rightarrow> {}
      | Some content \<Rightarrow>
          if scanned_readable d
          then set (List.map_filter parse_scanned_line (file_lines content))
          else {})"

definition save_scanned_wallet :: "disk \<Rightarrow> wallet \<Rightarrow> nat \<Rightarrow> disk" where
  "save_scanned_wallet d wallet_address timestamp =
     (if scanned_writable d
      then d\<lparr>scanned_file :=
               Some ((case scanned_file d of None \<Rightarrow> [] | Some content \<Rightarrow> content)
                     @ wallet_address @ ''|'' @ str_nat timestamp @ [CHR 0x0A])\<rparr>
      else d)"

text \<open>
  Writing \<^verbatim>\<open>good_wallets.json\<close>, in both modules:
  \<^verbatim>\<open>with open(path, 'w') as f: json.dump(rs, f, indent=2)\<close>. Opening with mode \<^verbatim>\<open>'w'\<close>
  empties the file, then \<^verbatim>\<open>json.dump\<close> writes the list. Between the two the file holds no
  result. A file left there, or in the middle of the dump, is not JSON: the readers of the
  source (\<^verbatim>\<open>load_existing_results\<close> and \<^verbatim>\<open>save_results\<close> of the scanner) catch the exception
  of \<^verbatim>\<open>json.load\<close> and go on with no result, as they do with the list \<open>[]\<close> that stands for
  it here.
\<close>

definition open_for_writing :: "disk \<Rightarrow> disk" where
  "open_for_writing d = d\<lparr>good_wallets_file := Some []\<rparr>"

definition json_dump :: "wallet_result list \<Rightarrow> disk \<Rightarrow> disk" where
  "json_dump rs d = d\<lparr>good_wallets_file := Some rs\<rparr>"

section \<open>The engine: shared state and workers\<close>

text \<open>
  The fields of the scanner or analyzer object that the workers share, the files, and a
  trace of the calls that matter for the order of effects: \<open>LedgerAppend p w\<close> is worker
  \<open>p\<close> calling \<^verbatim>\<open>save_scanned_wallet(w)\<close>, \<open>AnalyzeStart p w\<close> its call of
  \<^verbatim>\<open>analyze_wallet\<close> on \<open>w\<close>, and \<open>Goto p w\<close> one \<^verbatim>\<open>page.goto\<close> of that evaluation. Status
  lines, progress callbacks and sleeps are left out.
\<close>

datatype event = LedgerAppend nat wallet | AnalyzeStart nat wallet | Goto nat wallet

record engine =
  files :: disk
  scanned_wallets :: "wallet set"
  results :: "wallet_result list"
  total_processed :: nat
  total_passed :: nat
  total_skipped :: nat
  trace :: "event list"

text \<open>
  What the engine does not control. The clock of \<open>page_at\<close> and \<open>time_at\<close> is the length of
  the trace when the call is made, so that the page may answer each evaluation and each
  attempt differently: \<open>page_at E clock w attempt\<close> is what the page does during that attempt.
\<close>

record env =
  library :: pylib
  page_at :: "nat \<Rightarrow> wallet \<Rightarrow> nat \<Rightarrow> page_obs"
  time_at :: "nat \<Rightarrow> nat"
  browser_launches :: bool

definition initial_engine :: "disk \<Rightarrow> engine" where
  "initial_engine d =
     \<lparr>files = d, scanned_wallets = {}, results = [], total_processed = 0,
      total_passed = 0, total_skipped = 0, trace = []\<rparr>"

definition TRACKING_AVAILABLE :: bool where
  "TRACKING_AVAILABLE = True"

text \<open>
  \<^verbatim>\<open>PlaywrightWalletScanner.page_worker\<close>, the body of its loop in two parts with the
  \<^verbatim>\<open>await\<close> of the evaluation between them. First the test and insertion under
  \<^verbatim>\<open>scanned_lock\<close> and the ledger write; the result says whether the wallet is evaluated.
\<close>

definition scanner_claim :: "env \<Rightarrow> nat \<Rightarrow> wallet \<Rightarrow> engine \<Rightarrow> bool \<times> engine" where
  "scanner_claim E page_id wallet s =
     (if wallet \<in> scanned_wallets s
      then (False, s\<lparr>total_skipped := total_skipped s + 1\<rparr>)
      else
        (let s1 = s\<lparr>scanned_wallets := insert wallet (scanned_wallets s)\<rparr>;
             s2 = (if TRACKING_AVAILABLE
                   then s1\<lparr>files := save_scanned_wallet (files s1) wallet
                                       (time_at E (length (trace s1))),
                           trace := trace s1 @ [LedgerAppend page_id wallet]\<rparr>
                   else s1)
         in (True, s2)))"

text \<open>Then the evaluation and the statistics.\<close>

definition scanner_record :: "env \<Rightarrow> scanner_config \<Rightarrow> nat \<Rightarrow> wallet \<Rightarrow> engine \<Rightarrow> engine" where
  "scanner_record E cfg page_id wallet s =
     (case scanner_analyze_wallet (library E) cfg wallet (page_at E (length (trace s)) wallet) of
        (result, attempts) \<Rightarrow>
          (let s1 = s\<lparr>trace := trace s @ AnalyzeStart page_id wallet
                                  # replicate attempts (Goto page_id wallet),
                      total_processed := total_processed s + 1\<rparr>
           in case result of
                None \<Rightarrow> s1
              | Some r \<Rightarrow> s1\<lparr>total_passed := total_passed s1 + 1,
                             results := results s1 @ [r]\<rparr>))"

text \<open>The whole loop, for a worker that runs alone.\<close>

fun scanner_page_worker ::
  "env \<Rightarrow> scanner_config \<Rightarrow> nat \<Rightarrow> wallet list \<Rightarrow> engine \<Rightarrow> engine" where
  "scanner_page_worker E cfg page_id [] s = s"
| "scanner_page_worker E cfg page_id (wallet # wallet_chunk) s =
     (case scanner_claim E page_id wallet s of
        (False, s') \<Rightarrow> scanner_page_worker E cfg page_id wallet_chunk s'
      | (True, s') \<Rightarrow>
          scanner_page_worker E cfg page_id wallet_chunk (scanner_record E cfg page_id wallet s'))"

text \<open>
  The workers are asyncio tasks: one runs until its next \<^verbatim>\<open>await\<close>, then another may run.
  A worker of the scanner is either between two wallets (\<open>Fetching\<close>, with the rest of its
  chunk) or inside the evaluation of a wallet it has claimed (\<open>Evaluating\<close>). A schedule is
  the list of the workers in the order in which they make their steps.
\<close>

datatype worker = Fetching "wallet list" | Evaluating wallet "wallet list"

fun scanner_worker_step ::
  "env \<Rightarrow> scanner_config \<Rightarrow> nat \<Rightarrow> worker \<Rightarrow> engine \<Rightarrow> worker \<times> engine" where
  "scanner_worker_step E cfg page_id (Fetching []) s = (Fetching [], s)"
| "scanner_worker_step E cfg page_id (Fetching (wallet # wallet_chunk)) s =
     (case scanner_claim E page_id wallet s of
        (False, s') \<Rightarrow> (Fetching wallet_chunk, s')
      | (True, s') \<Rightarrow> (Evaluating wallet wallet_chunk, s'))"
| "scanner_worker_step E cfg page_id (Evaluating wallet wallet_chunk) s =
     (Fetching wallet_chunk, scanner_record E cfg page_id wallet s)"

text \<open>
  A pool is the shared state with the tasks, each a page and its worker. Step \<open>i\<close> lets
  task \<open>i\<close> run until its next \<^verbatim>\<open>await\<close>.
\<close>

definition scanner_pool_step ::
  "env \<Rightarrow> scanner_config \<Rightarrow> engine \<times> (nat \<times> worker) list \<Rightarrow> nat
     \<Rightarrow> engine \<times> (nat \<times> worker) list" where
  "scanner_pool_step E cfg p i =
     (if i < length (snd p)
      then (snd (scanner_worker_step E cfg (fst (snd p ! i)) (snd (snd p ! i)) (fst p)),
            (snd p)[i := (fst (snd p ! i),
                          fst (scanner_worker_step E cfg (fst (snd p ! i)) (snd (snd p ! i)) (fst p)))])
      else p)"

definition scanner_pool_run ::
  "env \<Rightarrow> scanner_config \<Rightarrow> nat list \<Rightarrow> engine \<times> (nat \<times> worker) list
     \<Rightarrow> engine \<times> (nat \<times> worker) list" where
  "scanner_pool_run E cfg sched p = foldl (scanner_pool_step E cfg) p sched"

text \<open>\<^verbatim>\<open>PlaywrightMultiPageAnalyzer._save_results\<close>: the file is replaced by the results of this run.\<close>

definition analyzer_save_results :: "engine \<Rightarrow> engine" where
  "analyzer_save_results s =
     (if good_writable (files s)
      then s\<lparr>files := json_dump (results s) (open_for_writing (files s))\<rparr>
      else s)"

text \<open>
  \<^verbatim>\<open>_save_results\<close> stopped between \<^verbatim>\<open>open\<close> and \<^verbatim>\<open>json.dump\<close>: what the files are when
  the process is killed there.
\<close>

definition analyzer_save_results_interrupted :: "engine \<Rightarrow> engine" where
  "analyzer_save_results_interrupted s =
     (if good_writable (files s)
      then s\<lparr>files := open_for_writing (files s)\<rparr>
      else s)"

text \<open>
  The body of the loop of \<^verbatim>\<open>PlaywrightMultiPageAnalyzer._page_worker_task\<close>: the evaluation
  first, and after its \<^verbatim>\<open>await\<close> the ledger, the counters and the checkpoint in one go.
\<close>

definition analyzer_wallet_task ::
  "env \<Rightarrow> analyzer_config \<Rightarrow> nat \<Rightarrow> wallet \<Rightarrow> engine \<Rightarrow> engine" where
  "analyzer_wallet_task E cfg worker_id wallet_address s =
     (case analyzer_analyze_wallet (library E) cfg wallet_address
             (page_at E (length (trace s)) wallet_address) of
        (result, attempts) \<Rightarrow>
          (let s1 = s\<lparr>trace := trace s @ AnalyzeStart worker_id wallet_address
                                  # replicate attempts (Goto worker_id wallet_address)\<rparr>;
               s2 = s1\<lparr>files := save_scanned_wallet (files s1) wallet_address
                                    (time_at E (length (trace s1))),
                       trace := trace s1 @ [LedgerAppend worker_id wallet_address]\<rparr>;
               s3 = s2\<lparr>scanned_wallets := insert wallet_address (scanned_wallets s2)\<rparr>;
               s4 = s3\<lparr>total_processed := total_processed s3 + 1\<rparr>
           in case result of
                None \<Rightarrow> s4
              | Some r \<Rightarrow>
                  if r_status r = Some ''passed''
                  then analyzer_save_results
                         (s4\<lparr>total_passed := total_passed s4 + 1, results := results s4 @ [r]\<rparr>)
                  else s4))"

fun analyzer_page_worker_task ::
  "env \<Rightarrow> analyzer_config \<Rightarrow> nat \<Rightarrow> wallet list \<Rightarrow> engine \<Rightarrow> engine" where
  "analyzer_page_worker_task E cfg worker_id [] s = s"
| "analyzer_page_worker_task E cfg worker_id (wallet_address # wallet_chunk) s =
     analyzer_page_worker_task E cfg worker_id wallet_chunk
       (analyzer_wallet_task E cfg worker_id wallet_address s)"

text \<open>
  A worker of the analyzer is the rest of its chunk: one step of it is one turn of the loop.
\<close>

fun analyzer_worker_step ::
  "env \<Rightarrow> analyzer_config \<Rightarrow> nat \<Rightarrow> wallet list \<Rightarrow> engine \<Rightarrow> wallet list \<times> engine" where
  "analyzer_worker_step E cfg worker_id [] s = ([], s)"
| "analyzer_worker_step E cfg worker_id (wallet_address # wallet_chunk) s =
     (wallet_chunk, analyzer_wallet_task E cfg worker_id wallet_address s)"

definition analyzer_pool_step ::
  "env \<Rightarrow> analyzer_config \<Rightarrow> engine \<times> (nat \<times> wallet list) list \<Rightarrow> nat
     \<Rightarrow> engine \<times> (nat \<times> wallet list) list" where
  "analyzer_pool_step E cfg p i =
     (if i < length (snd p)
      then (snd (analyzer_worker_step E cfg (fst (snd p ! i)) (snd (snd p ! i)) (fst p)),
            (snd p)[i := (fst (snd p ! i),
                          fst (analyzer_worker_step E cfg (fst (snd p ! i)) (snd (snd p ! i)) (fst p)))])
      else p)"

definition analyzer_pool_run ::
  "env \<Rightarrow> analyzer_config \<Rightarrow> nat list \<Rightarrow> engine \<times> (nat \<times> wallet list) list
     \<Rightarrow> engine \<times> (nat \<times> wallet list) list" where
  "analyzer_pool_run E cfg sched p = foldl (analyzer_pool_step E cfg) p sched"

section \<open>A whole run\<close>

text \<open>
  A run is given the schedule of its workers. \<^verbatim>\<open>asyncio.gather\<close> returns when every worker
  has finished its chunk; a schedule that ends before that is a run that has not returned,
  the value \<open>None\<close>.
\<close>

record summary =
  success :: bool
  total_scanned :: nat
  sm_total_passed :: nat
  good_wallets :: "wallet_result list"

definition summary_of :: "bool \<Rightarrow> engine \<Rightarrow> summary" where
  "summary_of ok s =
     \<lparr>success = ok, total_scanned = total_processed s, sm_total_passed = total_passed s,
      good_wallets = results s\<rparr>"

text \<open>\<^verbatim>\<open>PlaywrightMultiPageAnalyzer._load_unscanned_wallets\<close>\<close>

definition analyzer_load_unscanned_wallets :: "analyzer_config \<Rightarrow> engine \<Rightarrow> wallet list \<times> engine" where
  "analyzer_load_unscanned_wallets cfg s =
     (filter (\<lambda>w. w \<notin> load_scanned_wallets (files s)) (wallets cfg),
      s\<lparr>scanned_wallets := load_scanned_wallets (files s)\<rparr>)"

text \<open>
  \<^verbatim>\<open>PlaywrightMultiPageAnalyzer.run\<close>, from its end to its start. Every exception inside
  it ends the run with the summary of a failure. After \<^verbatim>\<open>asyncio.gather\<close>: the final
  \<^verbatim>\<open>_save_results\<close> and the summary.
\<close>

definition analyzer_gather :: "engine \<times> (nat \<times> wallet list) list \<Rightarrow> (summary \<times> engine) option" where
  "analyzer_gather p =
     (if list_all (\<lambda>t. snd t = []) (snd p)
      then Some (summary_of True (analyzer_save_results (fst p)), analyzer_save_results (fst p))
      else None)"

text \<open>The tasks on the chunks, or the failure of \<^verbatim>\<open>_distribute_wallets\<close>.\<close>

fun analyzer_run_workers ::
  "env \<Rightarrow> nat list \<Rightarrow> analyzer_config \<Rightarrow> engine \<Rightarrow> error + wallet list list
     \<Rightarrow> (summary \<times> engine) option" where
  "analyzer_run_workers E sched cfg s0 (Inl e) = Some (summary_of False s0, s0)"
| "analyzer_run_workers E sched cfg s0 (Inr wallet_chunks) =
     analyzer_gather
       (analyzer_pool_run E cfg sched (s0, worker_tasks (create_pages (num_pages cfg)) wallet_chunks))"

text \<open>
  The start: nothing to scan, or the browser, its \<^verbatim>\<open>num_pages\<close> pages (none for a
  number below 1) and the distribution over \<^verbatim>\<open>len(workers)\<close> pages.
\<close>

definition analyzer_run ::
  "env \<Rightarrow> nat list \<Rightarrow> analyzer_config \<Rightarrow> disk \<Rightarrow> (summary \<times> engine) option" where
  "analyzer_run E sched cfg d =
     (if fst (analyzer_load_unscanned_wallets cfg (initial_engine d)) = []
      then Some (\<lparr>success = True, total_scanned = 0, sm_total_passed = 0, good_wallets = []\<rparr>,
                 snd (analyzer_load_unscanned_wallets cfg (initial_engine d)))
      else if \<not> browser_launches E
      then Some (summary_of False (snd (analyzer_load_unscanned_wallets cfg (initial_engine d))),
                 snd (analyzer_load_unscanned_wallets cfg (initial_engine d)))
      else analyzer_run_workers E sched cfg
             (snd (analyzer_load_unscanned_wallets cfg (initial_engine d)))
             (analyzer_distribute_wallets
                (fst (analyzer_load_unscanned_wallets cfg (initial_engine d)))
                (int (length (create_pages (num_pages cfg))))))"

text \<open>\<^verbatim>\<open>PlaywrightWalletScanner.load_existing_results\<close> and \<^verbatim>\<open>save_results\<close> (its JSON file).\<close>

definition load_existing_results :: "disk \<Rightarrow> wallet set" where
  "load_existing_results d =
     (case good_wallets_file d of
        None \<Rightarrow> {}
      | Some existing \<Rightarrow> if good_readable d then set (map r_wallet existing) else {})"

definition existing_results :: "disk \<Rightarrow> wallet_result list" where
  "existing_results d =
     (case good_wallets_file d of
        None \<Rightarrow> []
      | Some existing \<Rightarrow> if good_readable d then existing else [])"

definition scanner_save_results :: "engine \<Rightarrow> error + engine" where
  "scanner_save_results s =
     (if results s = [] then Inr s
      else if good_writable (files s)
      then Inr (s\<lparr>files := json_dump (existing_results (files s) @ results s)
                                   (open_for_writing (files s))\<rparr>)
      else Inl OSError)"

text \<open>
  \<^verbatim>\<open>PlaywrightWalletScanner.run\<close>, from its end to its start; \<open>all_wallets\<close> is what
  \<^verbatim>\<open>load_wallets\<close> returns, the stripped non-empty lines of the input file. No exception is
  caught here. After \<^verbatim>\<open>asyncio.gather\<close>: \<^verbatim>\<open>save_results\<close>.
\<close>

definition scanner_gather :: "engine \<times> (nat \<times> worker) list \<Rightarrow> (error + engine) option" where
  "scanner_gather p =
     (if list_all (\<lambda>t. snd t = Fetching []) (snd p)
      then Some (scanner_save_results (fst p))
      else None)"

text \<open>The browser and the tasks on the chunks, or the failure of \<^verbatim>\<open>distribute_wallets\<close>.\<close>

fun scanner_run_workers ::
  "env \<Rightarrow> nat list \<Rightarrow> scanner_config \<Rightarrow> engine \<Rightarrow> error + wallet list list
     \<Rightarrow> (error + engine) option" where
  "scanner_run_workers E sched cfg s0 (Inl e) = Some (Inl e)"
| "scanner_run_workers E sched cfg s0 (Inr wallet_chunks) =
     (if \<not> browser_launches E then Some (Inl BrowserLaunchError)
      else scanner_gather
             (scanner_pool_run E cfg sched
                (s0, map (\<lambda>t. (fst t, Fetching (snd t)))
                       (worker_tasks (create_pages (sc_num_pages cfg)) wallet_chunks))))"

text \<open>The wallets already scanned, from both files.\<close>

definition scanner_load_scanned :: "disk \<Rightarrow> engine" where
  "scanner_load_scanned d =
     (initial_engine d)
       \<lparr>scanned_wallets := (if TRACKING_AVAILABLE
                            then load_existing_results d \<union> load_scanned_wallets d
                            else load_existing_results d)\<rparr>"

definition scanner_run ::
  "env \<Rightarrow> nat list \<Rightarrow> scanner_config \<Rightarrow> wallet list \<Rightarrow> disk \<Rightarrow> (error + engine) option" where
  "scanner_run E sched cfg all_wallets d =
     (if all_wallets = [] then Some (Inr (initial_engine d))
      else if filter (\<lambda>w. w \<notin> scanned_wallets (scanner_load_scanned d)) all_wallets = []
      then Some (Inr (scanner_load_scanned d))
      else scanner_run_workers E sched cfg (scanner_load_scanned d)
             (scanner_distribute_wallets (sc_num_pages cfg)
                (filter (\<lambda>w. w \<notin> scanned_wallets (scanner_load_scanned d)) all_wallets)))"

text \<open>
  An address that the ledger's line format can hold: no \<^verbatim>\<open>|\<close>, no line break, no white
  space at either end. A ledger in working order: the file can be read and written, and
  what it holds ends with a line break (as everything \<^verbatim>\<open>save_scanned_wallet\<close> writes does).
\<close>

definition ledger_safe :: "wallet \<Rightarrow> bool" where
  "ledger_safe w =
     (CHR ''|'' \<notin> set w \<and> list_all (\<lambda>c. \<not> is_newline c) w \<and>
      (w = [] \<or> (\<not> is_space (hd w) \<and> \<not> is_space (last w))))"

definition ledger_ready :: "disk \<Rightarrow> bool" where
  "ledger_ready d =
     (scanned_readable d \<and> scanned_writable d \<and>
      (case scanned_file d of None \<Rightarrow> True | Some content \<Rightarrow> content = [] \<or> is_newline (last content)))"

text \<open>The wallets of the calls recorded in a trace.\<close>

fun claimed :: "event list \<Rightarrow> wallet list" where
  "claimed [] = []"
| "claimed (LedgerAppend p w # t) = w # claimed t"
| "claimed (e # t) = claimed t"

fun analyzed :: "event list \<Rightarrow> wallet list" where
  "analyzed [] = []"
| "analyzed (AnalyzeStart p w # t) = w # analyzed t"
| "analyzed (e # t) = analyzed t"

text \<open>
  A check of the order of the calls in a trace: every evaluation step of a worker on a
  wallet (\<open>AnalyzeStart\<close>, \<open>Goto\<close>) comes after a ledger write of that worker for that wallet.
  The first argument holds the events already passed.
\<close>

fun ledger_first_from :: "event list \<Rightarrow> event list \<Rightarrow> bool" where
  "ledger_first_from seen [] = True"
| "ledger_first_from seen (LedgerAppend p w # t) = ledger_first_from (LedgerAppend p w # seen) t"
| "ledger_first_from seen (AnalyzeStart p w # t) =
     (LedgerAppend p w \<in> set seen \<and> ledger_first_from seen t)"
| "ledger_first_from seen (Goto p w # t) =
     (LedgerAppend p w \<in> set seen \<and> ledger_first_from seen t)"

definition ledger_first :: "event list \<Rightarrow> bool" where
  "ledger_first t = ledger_first_from [] t"

text \<open>The wallets a worker is evaluating, and the number of wallets not yet fetched.\<close>

fun evaluating :: "(nat \<times> worker) list \<Rightarrow> wallet list" where
  "evaluating [] = []"
| "evaluating ((p, Evaluating w c) # ts) = w # evaluating ts"
| "evaluating ((p, Fetching c) # ts) = evaluating ts"

fun rest_of :: "worker \<Rightarrow> wallet list" where
  "rest_of (Fetching c) = c"
| "rest_of (Evaluating w c) = c"

definition pending :: "(nat \<times> worker) list \<Rightarrow> wallet list" where
  "pending ts = concat (map (\<lambda>t. rest_of (snd t)) ts)"

text \<open>
  Invariants of the pool. The result file of the analyzer is up to date: it can be written,
  and it holds the results of this run as soon as there are any, and until then what the
  run found (\<open>G\<close>).
\<close>

definition saved :: "wallet_result list option \<Rightarrow> engine \<Rightarrow> bool" where
  "saved G s \<longleftrightarrow> good_writable (files s) \<and>
     good_wallets_file (files s) = (if results s = [] then G else Some (results s))"

text \<open>The result file and its two flags are those of \<open>d\<close>.\<close>

definition same_results_file :: "disk \<Rightarrow> disk \<Rightarrow> bool" where
  "same_results_file d d' \<longleftrightarrow>
     good_wallets_file d' = good_wallets_file d \<and> good_readable d' = good_readable d \<and>
     good_writable d' = good_writable d"

text \<open>
  The trace is in order, and every worker inside an evaluation has written the ledger for
  its wallet.
\<close>

definition claims_recorded :: "engine \<times> (nat \<times> worker) list \<Rightarrow> bool" where
  "claims_recorded p \<longleftrightarrow> ledger_first (trace (fst p)) \<and>
     (\<forall>t \<in> set (snd p). \<forall>w c. snd t = Evaluating w c \<longrightarrow> LedgerAppend (fst t) w \<in> set (trace (fst p)))"

text \<open>
  Every address is claimed at most once, and a claimed address is either evaluated or
  held by the worker that is about to evaluate it.
\<close>

definition claimed_once :: "wallet set \<Rightarrow> engine \<times> (nat \<times> worker) list \<Rightarrow> bool" where
  "claimed_once S0 p \<longleftrightarrow>
     scanned_wallets (fst p) = S0 \<union> set (claimed (trace (fst p))) \<and>
     distinct (claimed (trace (fst p))) \<and>
     set (claimed (trace (fst p))) \<inter> S0 = {} \<and>
     mset (claimed (trace (fst p))) = mset (analyzed (trace (fst p))) + mset (evaluating (snd p))"

text \<open>
  Every address taken from a chunk was skipped or claimed, and every evaluation is counted.
\<close>

definition counted :: "nat \<Rightarrow> nat \<Rightarrow> engine \<times> (nat \<times> worker) list \<Rightarrow> bool" where
  "counted K P0 p \<longleftrightarrow>
     total_skipped (fst p) + length (claimed (trace (fst p))) + length (pending (snd p)) = K \<and>
     total_processed (fst p) = P0 + length (analyzed (trace (fst p)))"

text \<open>The pages that are opened and get no task.\<close>

definition idle_pages :: "nat list \<Rightarrow> wallet list list \<Rightarrow> nat list" where
  "idle_pages pages chunks =
     filter (\<lambda>i. i \<notin> set (map fst (worker_tasks pages chunks))) pages"

text \<open>
  Invariants of the pools for the ledger: the ledger is in working order, the addresses that
  are left in the chunks fit its line format, and every address of \<open>W\<close> is in the ledger or
  left in a chunk.
\<close>

definition analyzer_recorded :: "wallet set \<Rightarrow> engine \<times> (nat \<times> wallet list) list \<Rightarrow> bool" where
  "analyzer_recorded W p \<longleftrightarrow>
     ledger_ready (files (fst p)) \<and>
     (\<forall>w \<in> set (concat (map snd (snd p))). ledger_safe w) \<and>
     (\<forall>w \<in> W. w \<in> load_scanned_wallets (files (fst p)) \<or> w \<in> set (concat (map snd (snd p))))"

text \<open>
  The same for the scanner, where every address of \<open>W\<close> is in the scanned set or left in a
  chunk, and the scanned set holds nothing but the addresses \<open>X\<close> and those of the ledger.
\<close>

definition scanner_recorded :: "wallet set \<Rightarrow> wallet set \<Rightarrow> engine \<times> (nat \<times> worker) list \<Rightarrow> bool" where
  "scanner_recorded W X p \<longleftrightarrow>
     ledger_ready (files (fst p)) \<and>
     (\<forall>w \<in> set (pending (snd p)). ledger_safe w) \<and>
     (\<forall>w \<in> W. w \<in> scanned_wallets (fst p) \<or> w \<in> set (pending (snd p))) \<and>
     scanned_wallets (fst p) \<subseteq> X \<union> load_scanned_wallets (files (fst p))"

section \<open>A sample library and sample pages\<close>

text \<open>
  Concrete inputs for evaluating the definitions: a page of the analytics site reduced to
  the two statistics, the texts the two locators of the scanner read from it, and a
  library that knows what \<^verbatim>\<open>re.search\<close> and \<^verbatim>\<open>float\<close> return on these texts (the
  patterns that are not listed do not match them).
\<close>

definition sample_html :: "string \<Rightarrow> string \<Rightarrow> string" where
  "sample_html wr pnl =
     ''<h3>Win Rate</h3><p class=text-2xl>'' @ wr @ ''%</p><p>Realized</p><p>$1,234 <span>(''
       @ pnl @ ''%)</span></p>''"

definition sample_page :: "string \<Rightarrow> string \<Rightarrow> page_obs" where
  "sample_page wr pnl =
     \<lparr>goto_ok = True, wait = SelectorFound,
      winrate_locator = Some (wr @ ''%''),
      pnl_locator = Some (''$1,234 ('' @ pnl @ ''%)''),
      winrate_content = Some (sample_html wr pnl),
      pnl_content = Some (sample_html wr pnl),
      debug_content = Some (sample_html wr pnl)\<rparr>"

definition sample_matches :: "string \<Rightarrow> string \<Rightarrow> ((pattern \<times> string) \<times> string) list" where
  "sample_matches wr pnl =
     [((ScannerWinrateNumber, wr @ ''%''), wr),
      ((ScannerWinrateHtml, sample_html wr pnl), wr),
      ((ScannerPnlParen, ''$1,234 ('' @ pnl @ ''%)''), pnl),
      ((AnalyzerWinratePrimary, sample_html wr pnl), wr),
      ((AnalyzerPnlPrimary, sample_html wr pnl), pnl),
      ((AnalyzerPnlSimple, sample_html wr pnl), pnl)]"

definition sample_lib :: pylib where
  "sample_lib =
     \<lparr>re_search = (\<lambda>p text. map_of
          (sample_matches ''75.0'' ''120.0'' @ sample_matches ''60.0'' ''150.0''
             @ sample_matches ''70.0'' ''100.0'' @ sample_matches ''150.0'' ''120.0'') (p, text)),
      py_float = map_of [(''75.0'', 75), (''120.0'', 120), (''60.0'', 60), (''150.0'', 150),
                         (''70.0'', 70), (''100.0'', 100)]\<rparr>"

text \<open>The default thresholds of both modules: 70 and 100.\<close>

definition sample_scanner_config :: scanner_config where
  "sample_scanner_config = \<lparr>sc_num_pages = 2, sc_min_winrate = 70, sc_min_pnl = 100\<rparr>"

definition sample_analyzer_config :: "wallet list \<Rightarrow> analyzer_config" where
  "sample_analyzer_config ws = \<lparr>num_pages = 2, wallets = ws, min_winrate = 70, min_realized_pnl = 100\<rparr>"

text \<open>
  A page on which the wait for the statistics times out: one that shows the site's "no
  data" marker, and one that shows nothing yet.
\<close>

definition no_data_page :: page_obs where
  "no_data_page =
     \<lparr>goto_ok = True, wait = WaitTimeout (Some ''<div>No data for this wallet</div>''),
      winrate_locator = None, pnl_locator = None,
      winrate_content = Some ''<div>No data for this wallet</div>'',
      pnl_content = Some ''<div>No data for this wallet</div>'',
      debug_content = Some ''<div>No data for this wallet</div>''\<rparr>"

definition loading_page :: page_obs where
  "loading_page =
     \<lparr>goto_ok = True, wait = WaitTimeout (Some ''<div>Loading</div>''),
      winrate_locator = None, pnl_locator = None,
      winrate_content = Some ''<div>Loading</div>'',
      pnl_content = Some ''<div>Loading</div>'',
      debug_content = Some ''<div>Loading</div>''\<rparr>"

text \<open>
  A page on which the name of the statistic occurs twice: the first pattern of the analyzer
  finds \<^verbatim>\<open>1.2.3\<close>, which \<^verbatim>\<open>float\<close> rejects, and its second pattern finds \<^verbatim>\<open>50.0\<close>. The
  library knows these two searches and this one number.
\<close>

definition garbled_html :: string where
  "garbled_html = ''<b>Win Rate<i>50.0%</i></b><h3>Win Rate</h3><p class=text-2xl>1.2.3%</p>''"

definition garbled_lib :: pylib where
  "garbled_lib =
     \<lparr>re_search = (\<lambda>p text. map_of
          [((AnalyzerWinratePrimary, garbled_html), ''1.2.3''),
           ((AnalyzerWinrateSimple, garbled_html), ''50.0'')] (p, text)),
      py_float = map_of [(''50.0'', 50)]\<rparr>"

definition garbled_page :: page_obs where
  "garbled_page =
     \<lparr>goto_ok = True, wait = SelectorFound,
      winrate_locator = None, pnl_locator = None,
      winrate_content = Some garbled_html,
      pnl_content = Some garbled_html,
      debug_content = Some garbled_html\<rparr>"

section \<open>Sample runs\<close>

definition sample_env :: env where
  "sample_env =
     \<lparr>library = sample_lib,
      page_at = (\<lambda>clock w attempt. if w = ''w0'' then sample_page ''75.0'' ''120.0''
                                    else sample_page ''60.0'' ''150.0''),
      time_at = (\<lambda>clock. 17 + clock),
      browser_launches = True\<rparr>"

definition empty_disk :: disk where
  "empty_disk =
     \<lparr>scanned_file = None, scanned_readable = True, scanned_writable = True,
      good_wallets_file = None, good_readable = True, good_writable = True\<rparr>"

section \<open>Properties of the work distribution\<close>

lemma chunk_append_ok:
  "k < length chunks \<Longrightarrow> chunk_append chunks (int k) w = Inr (chunks[k := chunks ! k @ [w]])"
  by (simp add: chunk_append_def Let_def)

lemma distribute_loop_enum:
  assumes "0 < n" "length chunks = n"
  shows "distribute_loop (int n) idx ws chunks =
    Inr (map (\<lambda>k. chunks ! k @ map snd (filter (\<lambda>p. fst p mod n = k) (enumerate idx ws))) [0..<n])"
  using assms
proof (induction ws arbitrary: idx chunks)
  case Nil
  then show ?case by (auto intro: nth_equalityI)
next
  case (Cons w ws)
  let ?j = "idx mod n"
  have j: "?j < length chunks" using Cons.prems by simp
  have m: "int idx mod int n = int ?j" by (simp add: zmod_int)
  have step: "distribute_loop (int n) idx (w # ws) chunks =
      distribute_loop (int n) (Suc idx) ws (chunks[?j := chunks ! ?j @ [w]])"
    using Cons.prems j by (simp add: m chunk_append_ok)
  show ?case
    unfolding step
    using Cons.prems j
    by (subst Cons.IH) (auto simp: nth_list_update)
qed

lemma enumerate_shard:
  "map snd (filter (\<lambda>p. fst p mod n = k) (enumerate 0 ws)) = round_robin_shard n k ws"
proof -
  have "enumerate 0 ws = map (\<lambda>i. (i, ws ! i)) [0..<length ws]"
    by (rule nth_equalityI) (simp_all add: nth_enumerate_eq)
  then show ?thesis
    by (simp add: round_robin_shard_def filter_map comp_def)
qed

lemma distribute_loop_shards:
  assumes "0 < n"
  shows "distribute_loop (int n) 0 ws (replicate n []) = Inr (map (\<lambda>k. round_robin_shard n k ws) [0..<n])"
  using assms by (simp add: distribute_loop_enum enumerate_shard)

lemma mset_concat_append_at:
  "j < length chunks \<Longrightarrow>
   mset (concat (chunks[j := chunks ! j @ [w]])) = add_mset w (mset (concat chunks))"
proof (induction chunks arbitrary: j)
  case Nil
  then show ?case by simp
next
  case (Cons c cs)
  then show ?case by (cases j) simp_all
qed

lemma distribute_loop_mset:
  "distribute_loop n idx ws chunks = Inr r \<Longrightarrow> mset (concat r) = mset (concat chunks) + mset ws"
proof (induction ws arbitrary: idx chunks)
  case Nil
  then show ?case by simp
next
  case (Cons w ws)
  from Cons.prems obtain chunks' where
    a: "chunk_append chunks (int idx mod n) w = Inr chunks'" and
    l: "distribute_loop n (Suc idx) ws chunks' = Inr r"
    by (auto split: if_splits sum.splits)
  from a have "mset (concat chunks') = add_mset w (mset (concat chunks))"
    by (auto simp: chunk_append_def Let_def mset_concat_append_at split: if_splits)
  with Cons.IH [OF l] show ?case by simp
qed

lemma shard_member:
  "x \<in> set (round_robin_shard n k ws) \<longleftrightarrow> (\<exists>i < length ws. i mod n = k \<and> ws ! i = x)"
  by (auto simp: round_robin_shard_def)

lemma shards_disjoint:
  assumes "distinct ws" "i \<noteq> j"
  shows "set (round_robin_shard n i ws) \<inter> set (round_robin_shard n j ws) = {}"
proof -
  { fix x assume "x \<in> set (round_robin_shard n i ws)" "x \<in> set (round_robin_shard n j ws)"
    then obtain a b where "a < length ws" "a mod n = i" "ws ! a = x"
      "b < length ws" "b mod n = j" "ws ! b = x"
      by (auto simp: shard_member)
    with assms have False by (auto simp: nth_eq_iff_index_eq) }
  then show ?thesis by blast
qed

lemma filter_eq_upt: "filter (\<lambda>i. i = k) [0..<m] = (if k < m then [k] else [])"
  by (induction m) auto

lemma shard_singleton:
  assumes "length ws \<le> n"
  shows "round_robin_shard n k ws = (if k < length ws then [ws ! k] else [])"
proof -
  have "filter (\<lambda>i. i mod n = k) [0..<length ws] = filter (\<lambda>i. i = k) [0..<length ws]"
    using assms by (intro filter_cong) auto
  then show ?thesis by (simp add: round_robin_shard_def filter_eq_upt)
qed

lemma filter_less_upt: "m \<le> n \<Longrightarrow> filter (\<lambda>k. k < m) [0..<n] = [0..<m]"
  by (induction n) (auto simp: le_Suc_eq)

lemma worker_tasks_shards:
  "worker_tasks [0..<n] (map f [0..<n]) = map (\<lambda>k. (k, f k)) (filter (\<lambda>k. f k \<noteq> []) [0..<n])"
proof -
  have "zip [0..<n] (map f [0..<n]) = map (\<lambda>k. (k, f k)) [0..<n]"
    by (simp add: zip_map2 zip_same_conv_map)
  then show ?thesis by (simp add: worker_tasks_def filter_map comp_def)
qed


lemma distribute_both:
  assumes "1 \<le> N" "N \<le> int (length W)"
  shows "scanner_distribute_wallets N W = Inr (map (\<lambda>k. round_robin_shard (nat N) k W) [0..<nat N])"
    and "analyzer_distribute_wallets W N = Inr (map (\<lambda>k. round_robin_shard (nat N) k W) [0..<nat N])"
proof -
  have n: "0 < nat N" "int (nat N) = N" using assms by simp_all
  show "scanner_distribute_wallets N W = Inr (map (\<lambda>k. round_robin_shard (nat N) k W) [0..<nat N])"
    by (simp only: scanner_distribute_wallets_def distribute_loop_shards [OF n(1), of W, unfolded n(2)])
  have "W \<noteq> []" "min N (int (length W)) = N" using assms by auto
  then show "analyzer_distribute_wallets W N = Inr (map (\<lambda>k. round_robin_shard (nat N) k W) [0..<nat N])"
    by (simp only: analyzer_distribute_wallets_def Let_def if_False
          distribute_loop_shards [OF n(1), of W, unfolded n(2)])
qed

text \<open>
  Claim C1, as amended. For every ordered candidate list \<open>W\<close> and worker count \<open>N\<close> with
  \<open>1 \<le> N \<le> |W|\<close>, both distributors return the same \<open>N\<close> shards; shard \<open>k\<close> holds the wallets
  at the input indices \<open>i\<close> with \<open>i mod N = k\<close> in input order, so the wallet at index \<open>i\<close> is in
  shard \<open>i mod N\<close>; the shards together hold every input entry exactly once (the
  concatenation is a permutation of \<open>W\<close>) and their union is \<open>W\<close>; when \<open>W\<close> has no repeated
  address the shards are pairwise disjoint.
\<close>

theorem distribute_wallets_round_robin:
  assumes "1 \<le> N" "N \<le> int (length W)"
  shows "\<exists>shards.
      scanner_distribute_wallets N W = Inr shards \<and>
      analyzer_distribute_wallets W N = Inr shards \<and>
      length shards = nat N \<and>
      (\<forall>k < nat N. shards ! k = round_robin_shard (nat N) k W) \<and>
      (\<forall>i < length W. W ! i \<in> set (shards ! (i mod nat N))) \<and>
      mset (concat shards) = mset W \<and>
      \<Union> (set ` set shards) = set W \<and>
      (distinct W \<longrightarrow>
         (\<forall>i < nat N. \<forall>j < nat N. i \<noteq> j \<longrightarrow> set (shards ! i) \<inter> set (shards ! j) = {}))"
proof -
  let ?n = "nat N"
  let ?sh = "map (\<lambda>k. round_robin_shard ?n k W) [0..<?n]"
  have n: "0 < ?n" using assms by simp
  have s: "scanner_distribute_wallets N W = Inr ?sh" and a: "analyzer_distribute_wallets W N = Inr ?sh"
    using distribute_both [OF assms] by simp_all
  have place: "\<forall>i < length W. W ! i \<in> set (?sh ! (i mod ?n))"
    using n by (auto simp: shard_member)
  have "distribute_loop N 0 W (replicate ?n []) = Inr ?sh"
    using s by (simp add: scanner_distribute_wallets_def)
  from distribute_loop_mset [OF this] have m: "mset (concat ?sh) = mset W"
    by simp
  from m have "set_mset (mset (concat ?sh)) = set_mset (mset W)" by simp
  then have u: "\<Union> (set ` set ?sh) = set W" by simp
  have d: "distinct W \<longrightarrow>
         (\<forall>i < ?n. \<forall>j < ?n. i \<noteq> j \<longrightarrow> set (?sh ! i) \<inter> set (?sh ! j) = {})"
    by (simp add: shards_disjoint)
  have k: "\<forall>k < ?n. ?sh ! k = round_robin_shard ?n k W" by simp
  have l: "length ?sh = ?n" by simp
  from s a l k place m u d show ?thesis by blast
qed

text \<open>
  Scenario E of the specification: two workers and five wallets give the shards
  \<open>[w0, w2, w4]\<close> and \<open>[w1, w3]\<close>.
\<close>

theorem distribute_wallets_round_robin_witness:
  "(1::int) \<le> 2 \<and> (2::int) \<le> int (length [''w0'', ''w1'', ''w2'', ''w3'', ''w4'']) \<and>
   scanner_distribute_wallets 2 [''w0'', ''w1'', ''w2'', ''w3'', ''w4'']
     = Inr [[''w0'', ''w2'', ''w4''], [''w1'', ''w3'']] \<and>
   analyzer_distribute_wallets [''w0'', ''w1'', ''w2'', ''w3'', ''w4''] 2
     = Inr [[''w0'', ''w2'', ''w4''], [''w1'', ''w3'']] \<and>
   (\<exists>shards. scanner_distribute_wallets 2 [''w0'', ''w1'', ''w2'', ''w3'', ''w4''] = Inr shards \<and>
      mset (concat shards) = mset [''w0'', ''w1'', ''w2'', ''w3'', ''w4''])"
proof -
  have h: "(1::int) \<le> 2" "(2::int) \<le> int (length [''w0'', ''w1'', ''w2'', ''w3'', ''w4''])"
    by simp_all
  have e: "scanner_distribute_wallets 2 [''w0'', ''w1'', ''w2'', ''w3'', ''w4'']
     = Inr [[''w0'', ''w2'', ''w4''], [''w1'', ''w3'']]"
    "analyzer_distribute_wallets [''w0'', ''w1'', ''w2'', ''w3'', ''w4''] 2
     = Inr [[''w0'', ''w2'', ''w4''], [''w1'', ''w3'']]"
    by (simp_all add: scanner_distribute_wallets_def analyzer_distribute_wallets_def
          chunk_append_def Let_def numeral_2_eq_2)
  from distribute_wallets_round_robin [OF h] obtain shards where
    "scanner_distribute_wallets 2 [''w0'', ''w1'', ''w2'', ''w3'', ''w4''] = Inr shards"
    "mset (concat shards) = mset [''w0'', ''w1'', ''w2'', ''w3'', ''w4'']"
    by blast
  with h e show ?thesis by blast
qed

text \<open>
  Claim C1 as stated fails on a list that repeats an address (the two shards share it) and
  for the worker count \<open>0\<close>, for which the index computation divides by zero.
\<close>

theorem distribute_wallets_counterexample:
  "scanner_distribute_wallets 2 [''a'', ''a''] = Inr [[''a''], [''a'']] \<and>
   analyzer_distribute_wallets [''a'', ''a''] 2 = Inr [[''a''], [''a'']] \<and>
   set ([[''a''], [''a'']] ! 0) \<inter> set ([[''a''], [''a'']] ! 1) \<noteq> {} \<and>
   (0::int) \<le> int (length [''a'']) \<and>
   scanner_distribute_wallets 0 [''a''] = Inl ZeroDivisionError \<and>
   analyzer_distribute_wallets [''a''] 0 = Inl ZeroDivisionError"
  by (simp add: scanner_distribute_wallets_def analyzer_distribute_wallets_def
        chunk_append_def Let_def numeral_2_eq_2)

lemma one_wallet_shards: "map (\<lambda>k. [W ! k]) [0..<length W] = map (\<lambda>w. [w]) W"
  by (intro nth_equalityI) simp_all

lemma filter_not_less_upt: "m \<le> n \<Longrightarrow> filter (\<lambda>i. \<not> i < m) [0..<n] = [m..<n]"
  by (induction n) (auto simp: le_Suc_eq)

lemma zip_pages_shards:
  "length xs \<le> n \<Longrightarrow> zip [0..<n] xs = zip [0..<length xs] xs"
  by (intro nth_equalityI) simp_all

text \<open>
  Claim C6, as amended. For every candidate list \<open>W\<close> and requested worker count \<open>N > |W|\<close>:
  both modules open \<open>N\<close> pages. The analyzer's distributor returns \<open>|W|\<close> shards of one wallet
  each. The scanner's distributor returns \<open>N\<close> chunks, the same \<open>|W|\<close> one-wallet shards
  followed by \<open>N - |W|\<close> empty chunks. In both modules the tasks are the first \<open>|W|\<close> pages
  with these one-wallet shards, so no empty shard is handed to a task; and the last
  \<open>N - |W|\<close> pages, of which there is at least one, are opened and get no task.
\<close>

theorem distribute_wallets_fewer_than_pages:
  assumes "int (length W) < N"
  shows "length (create_pages N) = nat N \<and> int (length (create_pages N)) = N \<and>
      analyzer_distribute_wallets W (int (length (create_pages N))) = Inr (map (\<lambda>w. [w]) W) \<and>
      scanner_distribute_wallets N W
        = Inr (map (\<lambda>w. [w]) W @ replicate (nat N - length W) []) \<and>
      worker_tasks (create_pages N) (map (\<lambda>w. [w]) W)
        = zip [0..<length W] (map (\<lambda>w. [w]) W) \<and>
      worker_tasks (create_pages N) (map (\<lambda>w. [w]) W @ replicate (nat N - length W) [])
        = zip [0..<length W] (map (\<lambda>w. [w]) W) \<and>
      idle_pages (create_pages N) (map (\<lambda>w. [w]) W) = [length W..<nat N] \<and>
      idle_pages (create_pages N) (map (\<lambda>w. [w]) W @ replicate (nat N - length W) [])
        = [length W..<nat N] \<and>
      length W < nat N"
proof -
  let ?m = "length W" and ?n = "nat N"
  let ?one = "map (\<lambda>w. [w]) W"
  have N: "int ?n = N" "0 < ?n" "?m \<le> ?n" "?m < ?n" using assms by simp_all
  have pages: "create_pages N = [0..<?n]" by (simp add: create_pages_def)
  have an: "analyzer_distribute_wallets W N = Inr ?one"
  proof (cases "W = []")
    case True
    then show ?thesis by (simp add: analyzer_distribute_wallets_def)
  next
    case False
    then have m: "0 < ?m" by simp
    have "min N (int ?m) = int ?m" using assms by simp
    then have "analyzer_distribute_wallets W N = distribute_loop (int ?m) 0 W (replicate ?m [])"
      using False by (simp add: analyzer_distribute_wallets_def)
    also have "\<dots> = Inr (map (\<lambda>k. round_robin_shard ?m k W) [0..<?m])"
      by (rule distribute_loop_shards [OF m])
    also have "map (\<lambda>k. round_robin_shard ?m k W) [0..<?m] = map (\<lambda>k. [W ! k]) [0..<?m]"
      by (simp add: shard_singleton)
    finally show ?thesis by (simp only: one_wallet_shards)
  qed
  let ?ch = "map (\<lambda>k. round_robin_shard ?n k W) [0..<?n]"
  have sc: "scanner_distribute_wallets N W = Inr ?ch"
    by (simp only: scanner_distribute_wallets_def distribute_loop_shards [OF N(2), of W, unfolded N(1)])
  have ch: "?ch = ?one @ replicate (?n - ?m) []"
    using N(3) by (intro nth_equalityI) (simp_all add: shard_singleton [OF N(3)] nth_append)
  have f: "filter (\<lambda>k. round_robin_shard ?n k W \<noteq> []) [0..<?n] = [0..<?m]"
    using filter_less_upt [OF N(3)] by (simp add: shard_singleton [OF N(3)])
  have "worker_tasks [0..<?n] ?ch = map (\<lambda>k. (k, round_robin_shard ?n k W)) [0..<?m]"
    by (simp only: worker_tasks_shards f)
  also have "\<dots> = zip [0..<?m] ?one"
    by (intro nth_equalityI) (simp_all add: shard_singleton [OF N(3)])
  finally have ts: "worker_tasks (create_pages N) (?one @ replicate (?n - ?m) []) = zip [0..<?m] ?one"
    by (simp only: pages ch)
  have "zip [0..<?n] ?one = zip [0..<?m] ?one"
    using zip_pages_shards [of ?one ?n] N(3) by simp
  moreover have "filter (\<lambda>(i, chunk). chunk \<noteq> []) (zip [0..<?m] ?one) = zip [0..<?m] ?one"
    by (rule filter_True) (auto dest: set_zip_rightD)
  ultimately have ta: "worker_tasks (create_pages N) ?one = zip [0..<?m] ?one"
    by (simp only: worker_tasks_def pages)
  have fs: "map fst (zip [0..<?m] ?one) = [0..<?m]"
    by (intro nth_equalityI) simp_all
  have idle: "filter (\<lambda>i. i \<notin> set [0..<?m]) [0..<?n] = [?m..<?n]"
    using filter_not_less_upt [OF N(3)] by simp
  have idle_an: "idle_pages (create_pages N) ?one = [?m..<?n]"
    unfolding idle_pages_def ta fs using idle by (simp only: pages)
  have idle_sc: "idle_pages (create_pages N) (?one @ replicate (?n - ?m) []) = [?m..<?n]"
    unfolding idle_pages_def ts fs using idle by (simp only: pages)
  have l: "length (create_pages N) = ?n" "int (length (create_pages N)) = N"
    using N(1) by (simp_all add: pages)
  have an': "analyzer_distribute_wallets W (int (length (create_pages N))) = Inr ?one"
    using an by (simp only: l(2))
  have sc': "scanner_distribute_wallets N W = Inr (?one @ replicate (?n - ?m) [])"
    using sc by (simp only: ch)
  show ?thesis
    by (intro conjI l an' sc' ta ts idle_an idle_sc N(4))
qed

text \<open>Two wallets and four pages.\<close>

theorem distribute_wallets_fewer_than_pages_witness:
  "int (length [''w0'', ''w1'']) < 4 \<and>
   analyzer_distribute_wallets [''w0'', ''w1''] (int (length (create_pages 4)))
     = Inr [[''w0''], [''w1'']] \<and>
   scanner_distribute_wallets 4 [''w0'', ''w1''] = Inr [[''w0''], [''w1''], [], []] \<and>
   worker_tasks (create_pages 4) [[''w0''], [''w1''], [], []] = [(0, [''w0'']), (1, [''w1''])] \<and>
   worker_tasks (create_pages 4) [[''w0''], [''w1'']] = [(0, [''w0'']), (1, [''w1''])] \<and>
   idle_pages (create_pages 4) [[''w0''], [''w1''], [], []] = [2, 3] \<and>
   idle_pages (create_pages 4) [[''w0''], [''w1'']] = [2, 3]"
proof -
  have h: "int (length [''w0'', ''w1'']) < 4" by simp
  have e: "scanner_distribute_wallets 4 [''w0'', ''w1''] = Inr [[''w0''], [''w1''], [], []]"
    "worker_tasks (create_pages 4) [[''w0''], [''w1''], [], []] = [(0, [''w0'']), (1, [''w1''])]"
    "worker_tasks (create_pages 4) [[''w0''], [''w1'']] = [(0, [''w0'']), (1, [''w1''])]"
    "idle_pages (create_pages 4) [[''w0''], [''w1''], [], []] = [2, 3]"
    "idle_pages (create_pages 4) [[''w0''], [''w1'']] = [2, 3]"
    by code_simp+
  from distribute_wallets_fewer_than_pages [OF h]
  have "analyzer_distribute_wallets [''w0'', ''w1''] (int (length (create_pages 4)))
     = Inr (map (\<lambda>w. [w]) [''w0'', ''w1''])"
    by blast
  then have "analyzer_distribute_wallets [''w0'', ''w1''] (int (length (create_pages 4)))
     = Inr [[''w0''], [''w1'']]"
    by simp
  with h e show ?thesis by blast
qed

text \<open>
  Claim C6 as stated fails: with two wallets and four requested workers the scanner's
  distributor returns four chunks, two of them empty, and in both modules four pages are
  opened of which the last two get no task.
\<close>

theorem distribute_wallets_idle_pages_counterexample:
  "scanner_distribute_wallets 4 [''w0'', ''w1''] = Inr [[''w0''], [''w1''], [], []] \<and>
   length [[''w0''], [''w1''], [], []] = 4 \<and>
   create_pages 4 = [0, 1, 2, 3] \<and>
   idle_pages (create_pages 4) [[''w0''], [''w1''], [], []] = [2, 3] \<and>
   analyzer_distribute_wallets [''w0'', ''w1''] (int (length (create_pages 4)))
     = Inr [[''w0''], [''w1'']] \<and>
   idle_pages (create_pages 4) [[''w0''], [''w1'']] = [2, 3]"
  by code_simp

section \<open>Properties of the evaluation of one wallet\<close>

lemma wait_for_data_iff: "wait_for_data_with_timeout out \<longleftrightarrow> out = SelectorFound"
  by (cases out) (auto simp: wait_for_data_with_timeout_def split: option.splits)

lemma scanner_loop_skip:
  assumes "\<forall>j<k. a \<le> j \<longrightarrow> scanner_attempt L cfg w j (obs j) = Continue"
    and "a \<le> k" "k < max_retries"
  shows "scanner_analyze_loop L cfg w obs a = scanner_analyze_loop L cfg w obs k"
  using assms
proof (induction "k - a" arbitrary: a)
  case 0
  then show ?case by simp
next
  case (Suc d)
  then have a: "a < k" "a < max_retries" by simp_all
  with Suc.prems have c: "scanner_attempt L cfg w a (obs a) = Continue" by simp
  have "scanner_analyze_loop L cfg w obs a = scanner_analyze_loop L cfg w obs (Suc a)"
    using a c by (subst scanner_analyze_loop.simps) simp
  also have "\<dots> = scanner_analyze_loop L cfg w obs k"
    using Suc.hyps Suc.prems a by (intro Suc.hyps(1)) auto
  finally show ?case .
qed

lemma scanner_first_return:
  assumes "\<forall>j<k. scanner_attempt L cfg w j (obs j) = Continue"
    and "k < max_retries" "scanner_attempt L cfg w k (obs k) = Return r"
  shows "scanner_analyze_wallet L cfg w obs = (r, Suc k)"
proof -
  have "scanner_analyze_loop L cfg w obs 0 = scanner_analyze_loop L cfg w obs k"
    using assms by (intro scanner_loop_skip) auto
  also have "\<dots> = (r, Suc k)"
    using assms by (subst scanner_analyze_loop.simps) simp
  finally show ?thesis by (simp add: scanner_analyze_wallet_def)
qed

lemma analyzer_loop_skip:
  assumes "\<forall>j<k. a \<le> j \<longrightarrow> analyzer_attempt L cfg w j (obs j) = Continue"
    and "a \<le> k" "k < max_retries"
  shows "analyzer_analyze_loop L cfg w obs a = analyzer_analyze_loop L cfg w obs k"
  using assms
proof (induction "k - a" arbitrary: a)
  case 0
  then show ?case by simp
next
  case (Suc d)
  then have a: "a < k" "a < max_retries" by simp_all
  with Suc.prems have c: "analyzer_attempt L cfg w a (obs a) = Continue" by simp
  have "analyzer_analyze_loop L cfg w obs a = analyzer_analyze_loop L cfg w obs (Suc a)"
    using a c by (subst analyzer_analyze_loop.simps) simp
  also have "\<dots> = analyzer_analyze_loop L cfg w obs k"
    using Suc.hyps Suc.prems a by (intro Suc.hyps(1)) auto
  finally show ?case .
qed

lemma analyzer_first_return:
  assumes "\<forall>j<k. analyzer_attempt L cfg w j (obs j) = Continue"
    and "k < max_retries" "analyzer_attempt L cfg w k (obs k) = Return r"
  shows "analyzer_analyze_wallet L cfg w obs = (r, Suc k)"
proof -
  have "analyzer_analyze_loop L cfg w obs 0 = analyzer_analyze_loop L cfg w obs k"
    using assms by (intro analyzer_loop_skip) auto
  also have "\<dots> = (r, Suc k)"
    using assms by (subst analyzer_analyze_loop.simps) simp
  finally show ?thesis by (simp add: analyzer_analyze_wallet_def)
qed


lemma scanner_attempt_classify:
  assumes "goto_ok o1" "wait o1 = SelectorFound"
    "scanner_extract_winrate L o1 = Some wr" "scanner_extract_realized_pnl L o1 = Some pnl"
  shows "scanner_attempt L cfg w k o1 =
     Return (if wr \<ge> sc_min_winrate cfg \<and> pnl \<ge> sc_min_pnl cfg
             then Some \<lparr>r_wallet = w, r_winrate = wr, r_realizedPnL = pnl, r_status = None\<rparr>
             else None)"
  using assms by (simp add: scanner_attempt_def wait_for_data_iff)

lemma analyzer_attempt_classify:
  assumes "goto_ok o1" "wait o1 = SelectorFound"
    "analyzer_extract_winrate L o1 = Some wr" "analyzer_extract_realized_pnl L o1 = Some pnl"
  shows "analyzer_attempt L cfg w k o1 =
     Return (Some \<lparr>r_wallet = w, r_winrate = wr, r_realizedPnL = pnl,
                   r_status = Some (if wr \<ge> min_winrate cfg \<and> pnl \<ge> min_realized_pnl cfg
                                    then ''passed'' else ''failed_criteria'')\<rparr>)"
  using assms by (simp add: analyzer_attempt_def wait_for_data_iff)

text \<open>
  Claim C2. Let attempt \<open>k\<close> be the first that does not end in a retry, and let it extract
  both the win rate \<open>wr\<close> and the realized PnL \<open>pnl\<close>. Then the evaluation is a pass if and
  only if \<open>wr \<ge> min_winrate\<close> and \<open>pnl \<ge> min_pnl\<close>, both bounds inclusive: the scanner
  returns the wallet's dictionary in that case and \<^verbatim>\<open>None\<close> otherwise, the analyzer returns a
  dictionary whose status is \<^verbatim>\<open>passed\<close> in that case and \<^verbatim>\<open>failed_criteria\<close> otherwise.
\<close>

theorem classification_inclusive_thresholds:
  assumes "k < max_retries" "goto_ok (obs k)" "wait (obs k) = SelectorFound"
  shows "((\<forall>j<k. scanner_attempt L scfg w j (obs j) = Continue) \<and>
          scanner_extract_winrate L (obs k) = Some wr \<and>
          scanner_extract_realized_pnl L (obs k) = Some pnl \<longrightarrow>
            (fst (scanner_analyze_wallet L scfg w obs) =
               Some \<lparr>r_wallet = w, r_winrate = wr, r_realizedPnL = pnl, r_status = None\<rparr>
             \<longleftrightarrow> wr \<ge> sc_min_winrate scfg \<and> pnl \<ge> sc_min_pnl scfg) \<and>
            (fst (scanner_analyze_wallet L scfg w obs) = None
             \<longleftrightarrow> \<not> (wr \<ge> sc_min_winrate scfg \<and> pnl \<ge> sc_min_pnl scfg)))
       \<and> ((\<forall>j<k. analyzer_attempt L acfg w j (obs j) = Continue) \<and>
          analyzer_extract_winrate L (obs k) = Some wr \<and>
          analyzer_extract_realized_pnl L (obs k) = Some pnl \<longrightarrow>
            (\<exists>r. fst (analyzer_analyze_wallet L acfg w obs) = Some r \<and>
               (r_status r = Some ''passed''
                  \<longleftrightarrow> wr \<ge> min_winrate acfg \<and> pnl \<ge> min_realized_pnl acfg) \<and>
               (r_status r = Some ''failed_criteria''
                  \<longleftrightarrow> \<not> (wr \<ge> min_winrate acfg \<and> pnl \<ge> min_realized_pnl acfg))))"
proof (intro conjI impI)
  assume h: "(\<forall>j<k. scanner_attempt L scfg w j (obs j) = Continue) \<and>
          scanner_extract_winrate L (obs k) = Some wr \<and>
          scanner_extract_realized_pnl L (obs k) = Some pnl"
  then have "scanner_attempt L scfg w k (obs k) =
     Return (if wr \<ge> sc_min_winrate scfg \<and> pnl \<ge> sc_min_pnl scfg
             then Some \<lparr>r_wallet = w, r_winrate = wr, r_realizedPnL = pnl, r_status = None\<rparr>
             else None)"
    using assms by (intro scanner_attempt_classify) simp_all
  with h assms(1) have r: "scanner_analyze_wallet L scfg w obs =
     (if wr \<ge> sc_min_winrate scfg \<and> pnl \<ge> sc_min_pnl scfg
      then Some \<lparr>r_wallet = w, r_winrate = wr, r_realizedPnL = pnl, r_status = None\<rparr>
      else None, Suc k)"
    by (intro scanner_first_return) simp_all
  show "fst (scanner_analyze_wallet L scfg w obs) =
               Some \<lparr>r_wallet = w, r_winrate = wr, r_realizedPnL = pnl, r_status = None\<rparr>
             \<longleftrightarrow> wr \<ge> sc_min_winrate scfg \<and> pnl \<ge> sc_min_pnl scfg"
    by (simp add: r)
  show "fst (scanner_analyze_wallet L scfg w obs) = None
             \<longleftrightarrow> \<not> (wr \<ge> sc_min_winrate scfg \<and> pnl \<ge> sc_min_pnl scfg)"
    by (simp add: r)
next
  assume h: "(\<forall>j<k. analyzer_attempt L acfg w j (obs j) = Continue) \<and>
          analyzer_extract_winrate L (obs k) = Some wr \<and>
          analyzer_extract_realized_pnl L (obs k) = Some pnl"
  let ?r = "\<lparr>r_wallet = w, r_winrate = wr, r_realizedPnL = pnl,
                   r_status = Some (if wr \<ge> min_winrate acfg \<and> pnl \<ge> min_realized_pnl acfg
                                    then ''passed'' else ''failed_criteria'')\<rparr>"
  from h have "analyzer_attempt L acfg w k (obs k) = Return (Some ?r)"
    using assms by (intro analyzer_attempt_classify) simp_all
  with h assms(1) have r: "analyzer_analyze_wallet L acfg w obs = (Some ?r, Suc k)"
    by (intro analyzer_first_return) simp_all
  show "\<exists>r. fst (analyzer_analyze_wallet L acfg w obs) = Some r \<and>
               (r_status r = Some ''passed''
                  \<longleftrightarrow> wr \<ge> min_winrate acfg \<and> pnl \<ge> min_realized_pnl acfg) \<and>
               (r_status r = Some ''failed_criteria''
                  \<longleftrightarrow> \<not> (wr \<ge> min_winrate acfg \<and> pnl \<ge> min_realized_pnl acfg))"
    by (simp add: r)
qed

lemma sample_extract:
  "scanner_extract_winrate sample_lib (sample_page ''70.0'' ''100.0'') = Some 70"
  "scanner_extract_realized_pnl sample_lib (sample_page ''70.0'' ''100.0'') = Some 100"
  "analyzer_extract_winrate sample_lib (sample_page ''70.0'' ''100.0'') = Some 70"
  "analyzer_extract_realized_pnl sample_lib (sample_page ''70.0'' ''100.0'') = Some 100"
  "scanner_extract_winrate sample_lib (sample_page ''60.0'' ''150.0'') = Some 60"
  "scanner_extract_realized_pnl sample_lib (sample_page ''60.0'' ''150.0'') = Some 150"
  "analyzer_extract_winrate sample_lib (sample_page ''60.0'' ''150.0'') = Some 60"
  "analyzer_extract_realized_pnl sample_lib (sample_page ''60.0'' ''150.0'') = Some 150"
  "scanner_extract_winrate sample_lib (sample_page ''75.0'' ''120.0'') = Some 75"
  "scanner_extract_realized_pnl sample_lib (sample_page ''75.0'' ''120.0'') = Some 120"
  "analyzer_extract_winrate sample_lib (sample_page ''75.0'' ''120.0'') = Some 75"
  "analyzer_extract_realized_pnl sample_lib (sample_page ''75.0'' ''120.0'') = Some 120"
  by code_simp+

text \<open>
  The boundary case: a win rate of exactly 70 and a realized PnL of exactly 100 against the
  thresholds 70 and 100 pass in both modules.
\<close>

theorem classification_inclusive_thresholds_witness:
  "(0::nat) < max_retries \<and> goto_ok (sample_page ''70.0'' ''100.0'') \<and>
   wait (sample_page ''70.0'' ''100.0'') = SelectorFound \<and>
   scanner_extract_winrate sample_lib (sample_page ''70.0'' ''100.0'') = Some (sc_min_winrate sample_scanner_config) \<and>
   scanner_extract_realized_pnl sample_lib (sample_page ''70.0'' ''100.0'') = Some (sc_min_pnl sample_scanner_config) \<and>
   analyzer_extract_winrate sample_lib (sample_page ''70.0'' ''100.0'') = Some (min_winrate (sample_analyzer_config [])) \<and>
   analyzer_extract_realized_pnl sample_lib (sample_page ''70.0'' ''100.0'') = Some (min_realized_pnl (sample_analyzer_config [])) \<and>
   fst (scanner_analyze_wallet sample_lib sample_scanner_config ''w'' (\<lambda>_. sample_page ''70.0'' ''100.0''))
     = Some \<lparr>r_wallet = ''w'', r_winrate = 70, r_realizedPnL = 100, r_status = None\<rparr> \<and>
   (\<exists>r. fst (analyzer_analyze_wallet sample_lib (sample_analyzer_config []) ''w''
              (\<lambda>_. sample_page ''70.0'' ''100.0'')) = Some r \<and> r_status r = Some ''passed'')"
proof -
  have h: "(0::nat) < max_retries" "goto_ok (sample_page ''70.0'' ''100.0'')"
    "wait (sample_page ''70.0'' ''100.0'') = SelectorFound"
    by (simp_all add: max_retries_def sample_page_def)
  have c: "sc_min_winrate sample_scanner_config = 70" "sc_min_pnl sample_scanner_config = 100"
    "min_winrate (sample_analyzer_config []) = 70" "min_realized_pnl (sample_analyzer_config []) = 100"
    by (simp_all add: sample_scanner_config_def sample_analyzer_config_def)
  from classification_inclusive_thresholds [of 0 "\<lambda>_. sample_page ''70.0'' ''100.0''"
      sample_lib sample_scanner_config "''w''" 70 100 "sample_analyzer_config []", OF h]
  show ?thesis
    using h by (auto simp: sample_extract c)
qed


text \<open>
  Claim C9, as amended: in the analyzer, a wallet whose two metrics are extracted and which
  fails a threshold is returned as a \<^verbatim>\<open>failed_criteria\<close> dictionary that carries the
  extracted win rate and realized PnL.
\<close>

theorem failed_criteria_carries_values:
  assumes "k < max_retries" "\<forall>j<k. analyzer_attempt L cfg w j (obs j) = Continue"
    and "goto_ok (obs k)" "wait (obs k) = SelectorFound"
    and "analyzer_extract_winrate L (obs k) = Some wr"
    and "analyzer_extract_realized_pnl L (obs k) = Some pnl"
    and "\<not> (wr \<ge> min_winrate cfg \<and> pnl \<ge> min_realized_pnl cfg)"
  shows "fst (analyzer_analyze_wallet L cfg w obs) =
     Some \<lparr>r_wallet = w, r_winrate = wr, r_realizedPnL = pnl, r_status = Some ''failed_criteria''\<rparr>"
proof -
  have "analyzer_attempt L cfg w k (obs k) =
      Return (Some \<lparr>r_wallet = w, r_winrate = wr, r_realizedPnL = pnl,
                   r_status = Some (if wr \<ge> min_winrate cfg \<and> pnl \<ge> min_realized_pnl cfg
                                    then ''passed'' else ''failed_criteria'')\<rparr>)"
    using assms(3-6) by (rule analyzer_attempt_classify)
  from analyzer_first_return [OF assms(2) assms(1) this] assms(7)
  show ?thesis by auto
qed

text \<open>
  Scenario B of the specification in the analyzer, after a first attempt whose navigation
  fails: win rate 60 and realized PnL 150 against the thresholds 70 and 100.
\<close>

theorem failed_criteria_carries_values_witness:
  "(1::nat) < max_retries \<and>
   analyzer_attempt sample_lib (sample_analyzer_config []) ''w'' 0
      ((sample_page ''60.0'' ''150.0'')\<lparr>goto_ok := False\<rparr>) = Continue \<and>
   goto_ok (sample_page ''60.0'' ''150.0'') \<and> wait (sample_page ''60.0'' ''150.0'') = SelectorFound \<and>
   analyzer_extract_winrate sample_lib (sample_page ''60.0'' ''150.0'') = Some 60 \<and>
   analyzer_extract_realized_pnl sample_lib (sample_page ''60.0'' ''150.0'') = Some 150 \<and>
   \<not> (60 \<ge> min_winrate (sample_analyzer_config []) \<and> 150 \<ge> min_realized_pnl (sample_analyzer_config [])) \<and>
   fst (analyzer_analyze_wallet sample_lib (sample_analyzer_config []) ''w''
          (\<lambda>j. if j = 0 then (sample_page ''60.0'' ''150.0'')\<lparr>goto_ok := False\<rparr>
                else sample_page ''60.0'' ''150.0'')) =
     Some \<lparr>r_wallet = ''w'', r_winrate = 60, r_realizedPnL = 150, r_status = Some ''failed_criteria''\<rparr>"
proof -
  let ?obs = "\<lambda>j::nat. if j = 0 then (sample_page ''60.0'' ''150.0'')\<lparr>goto_ok := False\<rparr>
                else sample_page ''60.0'' ''150.0''"
  have c: "analyzer_attempt sample_lib (sample_analyzer_config []) ''w'' 0
      ((sample_page ''60.0'' ''150.0'')\<lparr>goto_ok := False\<rparr>) = Continue"
    by (simp add: analyzer_attempt_def retry_or_give_up_def max_retries_def)
  have g: "goto_ok (sample_page ''60.0'' ''150.0'')"
    "wait (sample_page ''60.0'' ''150.0'') = SelectorFound"
    by (simp_all add: sample_page_def)
  have t: "\<not> (60 \<ge> min_winrate (sample_analyzer_config []) \<and> 150 \<ge> min_realized_pnl (sample_analyzer_config []))"
    by (simp add: sample_analyzer_config_def)
  have h: "(1::nat) < max_retries"
    "\<forall>j<1::nat. analyzer_attempt sample_lib (sample_analyzer_config []) ''w'' j (?obs j) = Continue"
    "goto_ok (?obs 1)" "wait (?obs 1) = SelectorFound"
    "analyzer_extract_winrate sample_lib (?obs 1) = Some 60"
    "analyzer_extract_realized_pnl sample_lib (?obs 1) = Some 150"
    using c g by (simp_all add: max_retries_def sample_extract)
  from failed_criteria_carries_values [OF h t] h(1) c g t show ?thesis
    by (simp add: sample_extract)
qed

text \<open>
  Claim C9 as stated fails in the scanner, which returns \<^verbatim>\<open>None\<close> for the same wallet: the
  extracted values are dropped.
\<close>

theorem failed_criteria_scanner_counterexample:
  "scanner_extract_winrate sample_lib (sample_page ''60.0'' ''150.0'') = Some 60 \<and>
   scanner_extract_realized_pnl sample_lib (sample_page ''60.0'' ''150.0'') = Some 150 \<and>
   scanner_analyze_wallet sample_lib sample_scanner_config ''w''
     (\<lambda>_. sample_page ''60.0'' ''150.0'') = (None, 1)"
proof -
  have "scanner_attempt sample_lib sample_scanner_config ''w'' 0 (sample_page ''60.0'' ''150.0'')
      = Return None"
    by code_simp
  then have "scanner_analyze_wallet sample_lib sample_scanner_config ''w''
     (\<lambda>_. sample_page ''60.0'' ''150.0'') = (None, Suc 0)"
    by (intro scanner_first_return) (simp_all add: max_retries_def)
  then show ?thesis by (simp add: sample_extract)
qed

text \<open>
  Claim C3 against the code. The page of the first conjuncts shows the "no data" marker;
  the scanner nevertheless makes all three attempts on it. The page of the last conjuncts
  shows neither the statistics nor a marker; the analyzer gives up after the first attempt.
  \<^verbatim>\<open>_wait_for_data_with_timeout\<close> returns False on both pages, so no caller can tell them
  apart.
\<close>

theorem no_data_marker_retried:
  "py_in ''no data for this wallet''
      (py_lower (the (winrate_content no_data_page))) \<and>
   wait no_data_page = WaitTimeout (winrate_content no_data_page) \<and>
   scanner_analyze_wallet L scfg w (\<lambda>_. no_data_page) = (None, 3) \<and>
   \<not> py_in ''no data for this wallet'' (py_lower (the (winrate_content loading_page))) \<and>
   \<not> py_in ''not a wallet address'' (py_lower (the (winrate_content loading_page))) \<and>
   wait loading_page = WaitTimeout (winrate_content loading_page) \<and>
   analyzer_analyze_wallet L acfg w (\<lambda>_. loading_page) = (None, 1)"
proof -
  have m: "py_in ''no data for this wallet'' (py_lower (the (winrate_content no_data_page)))"
    by code_simp
  have n: "\<not> py_in ''no data for this wallet'' (py_lower (the (winrate_content loading_page)))"
    "\<not> py_in ''not a wallet address'' (py_lower (the (winrate_content loading_page)))"
    by code_simp+
  have w: "wait no_data_page = WaitTimeout (winrate_content no_data_page)"
    "wait loading_page = WaitTimeout (winrate_content loading_page)"
    by (simp_all add: no_data_page_def loading_page_def)
  have a: "\<And>k. scanner_attempt L scfg w k no_data_page = retry_or_give_up k"
    by (simp add: scanner_attempt_def wait_for_data_iff no_data_page_def)
  have "scanner_analyze_loop L scfg w (\<lambda>_. no_data_page) 0 = (None, 3)"
    by (simp add: a retry_or_give_up_def max_retries_def)
  then have s: "scanner_analyze_wallet L scfg w (\<lambda>_. no_data_page) = (None, 3)"
    by (simp add: scanner_analyze_wallet_def)
  have "analyzer_attempt L acfg w 0 loading_page = Return None"
    by (simp add: analyzer_attempt_def wait_for_data_iff loading_page_def)
  then have "analyzer_analyze_loop L acfg w (\<lambda>_. loading_page) 0 = (None, 1)"
    by (simp add: max_retries_def)
  then have l: "analyzer_analyze_wallet L acfg w (\<lambda>_. loading_page) = (None, 1)"
    by (simp add: analyzer_analyze_wallet_def)
  from m n w s l show ?thesis by blast
qed


text \<open>
  Claim C7, as amended. Both win-rate extractors return only values in \<open>[0, 100]\<close>, and the
  realized-PnL extractors return the number of the pattern that decides, whatever it is.
  The patterns are tried in a fixed order, every way through each extractor being as follows.

  The analyzer, win rate: without the HTML there is no result. A first pattern that matches
  a number in the range decides; when it matches a number out of the range, or does not
  match, the second pattern decides, under the same bound; when what it matches is not a
  number, there is no result and the second pattern is not tried.

  The scanner, win rate: a number in the locator's text is returned when it is in the range
  and there is no result when it is out of the range or when the text has no number; the
  pattern on the HTML is tried only when the locator raises or the number does not parse,
  and then decides, under the same bound.

  The analyzer, PnL: the first pattern decides when it matches, else the second one; the
  result is the number matched, and there is none when the match is not a number or when
  neither pattern matches.

  The scanner, PnL: on the locator's text the percentage in parentheses decides when there
  is one, else any percentage, and there is no result when there is neither; the pattern on
  the HTML is tried only when the locator raises or what was matched does not parse, and
  then decides.
\<close>

theorem extractors_bound_and_order:
  "(scanner_extract_winrate L obs = Some v \<longrightarrow> 0 \<le> v \<and> v \<le> 100) \<and>
   (analyzer_extract_winrate L obs = Some v \<longrightarrow> 0 \<le> v \<and> v \<le> 100) \<and>
   (winrate_content obs = None \<longrightarrow> analyzer_extract_winrate L obs = None) \<and>
   (winrate_content obs = Some html \<and> re_search L AnalyzerWinratePrimary html = Some g \<and>
      py_float L g = Some u \<longrightarrow>
        analyzer_extract_winrate L obs =
          (if 0 \<le> u \<and> u \<le> 100 then Some u else analyzer_winrate_simple L html)) \<and>
   (winrate_content obs = Some html \<and> re_search L AnalyzerWinratePrimary html = Some g \<and>
      py_float L g = None \<longrightarrow> analyzer_extract_winrate L obs = None) \<and>
   (winrate_content obs = Some html \<and> re_search L AnalyzerWinratePrimary html = None \<longrightarrow>
        analyzer_extract_winrate L obs = analyzer_winrate_simple L html) \<and>
   (analyzer_winrate_simple L html = Some v \<longleftrightarrow>
      (\<exists>g'. re_search L AnalyzerWinrateSimple html = Some g' \<and> py_float L g' = Some v \<and>
         0 \<le> v \<and> v \<le> 100)) \<and>
   (winrate_locator obs = None \<longrightarrow>
        scanner_extract_winrate L obs = scanner_winrate_fallback L obs) \<and>
   (winrate_locator obs = Some text \<and> re_search L ScannerWinrateNumber text = None \<longrightarrow>
        scanner_extract_winrate L obs = None) \<and>
   (winrate_locator obs = Some text \<and> re_search L ScannerWinrateNumber text = Some g \<and>
      py_float L (remove_commas g) = None \<longrightarrow>
        scanner_extract_winrate L obs = scanner_winrate_fallback L obs) \<and>
   (winrate_locator obs = Some text \<and> re_search L ScannerWinrateNumber text = Some g \<and>
      py_float L (remove_commas g) = Some u \<longrightarrow>
        scanner_extract_winrate L obs = (if 0 \<le> u \<and> u \<le> 100 then Some u else None)) \<and>
   (scanner_winrate_fallback L obs = Some v \<longleftrightarrow>
      (\<exists>html' g'. winrate_content obs = Some html' \<and>
         re_search L ScannerWinrateHtml html' = Some g' \<and>
         py_float L (remove_commas g') = Some v \<and> 0 \<le> v \<and> v \<le> 100)) \<and>
   (pnl_content obs = None \<longrightarrow> analyzer_extract_realized_pnl L obs = None) \<and>
   (pnl_content obs = Some html \<and> re_search L AnalyzerPnlPrimary html = Some g \<longrightarrow>
        analyzer_extract_realized_pnl L obs = py_float L g) \<and>
   (pnl_content obs = Some html \<and> re_search L AnalyzerPnlPrimary html = None \<and>
      re_search L AnalyzerPnlSimple html = Some g \<longrightarrow>
        analyzer_extract_realized_pnl L obs = py_float L g) \<and>
   (pnl_content obs = Some html \<and> re_search L AnalyzerPnlPrimary html = None \<and>
      re_search L AnalyzerPnlSimple html = None \<longrightarrow>
        analyzer_extract_realized_pnl L obs = None) \<and>
   (pnl_locator obs = None \<longrightarrow>
        scanner_extract_realized_pnl L obs = scanner_pnl_fallback L obs) \<and>
   (pnl_locator obs = Some text \<and> re_search L ScannerPnlParen text = Some g \<and>
      py_float L (remove_commas g) = Some p \<longrightarrow> scanner_extract_realized_pnl L obs = Some p) \<and>
   (pnl_locator obs = Some text \<and> re_search L ScannerPnlParen text = Some g \<and>
      py_float L (remove_commas g) = None \<longrightarrow>
        scanner_extract_realized_pnl L obs = scanner_pnl_fallback L obs) \<and>
   (pnl_locator obs = Some text \<and> re_search L ScannerPnlParen text = None \<and>
      re_search L ScannerPnlPercent text = Some g \<and>
      py_float L (remove_commas g) = Some p \<longrightarrow> scanner_extract_realized_pnl L obs = Some p) \<and>
   (pnl_locator obs = Some text \<and> re_search L ScannerPnlParen text = None \<and>
      re_search L ScannerPnlPercent text = Some g \<and>
      py_float L (remove_commas g) = None \<longrightarrow>
        scanner_extract_realized_pnl L obs = scanner_pnl_fallback L obs) \<and>
   (pnl_locator obs = Some text \<and> re_search L ScannerPnlParen text = None \<and>
      re_search L ScannerPnlPercent text = None \<longrightarrow>
        scanner_extract_realized_pnl L obs = None) \<and>
   (scanner_pnl_fallback L obs = Some p \<longleftrightarrow>
      (\<exists>html' g'. pnl_content obs = Some html' \<and>
         re_search L ScannerPnlHtml html' = Some g' \<and>
         py_float L (remove_commas g') = Some p))"
proof -
  have b1: "scanner_extract_winrate L obs = Some v \<longrightarrow> 0 \<le> v \<and> v \<le> 100"
    by (auto simp: scanner_extract_winrate_def scanner_winrate_fallback_def
          split: option.splits if_splits)
  have b2: "analyzer_extract_winrate L obs = Some v \<longrightarrow> 0 \<le> v \<and> v \<le> 100"
    by (auto simp: analyzer_extract_winrate_def analyzer_winrate_simple_def
          split: option.splits if_splits)
  have a1: "winrate_content obs = None \<longrightarrow> analyzer_extract_winrate L obs = None"
    by (simp add: analyzer_extract_winrate_def)
  have a2: "winrate_content obs = Some html \<and> re_search L AnalyzerWinratePrimary html = Some g \<and>
      py_float L g = Some u \<longrightarrow>
        analyzer_extract_winrate L obs =
          (if 0 \<le> u \<and> u \<le> 100 then Some u else analyzer_winrate_simple L html)"
    by (simp add: analyzer_extract_winrate_def)
  have a3: "winrate_content obs = Some html \<and> re_search L AnalyzerWinratePrimary html = Some g \<and>
      py_float L g = None \<longrightarrow> analyzer_extract_winrate L obs = None"
    by (simp add: analyzer_extract_winrate_def)
  have a4: "winrate_content obs = Some html \<and> re_search L AnalyzerWinratePrimary html = None \<longrightarrow>
        analyzer_extract_winrate L obs = analyzer_winrate_simple L html"
    by (simp add: analyzer_extract_winrate_def)
  have a5: "analyzer_winrate_simple L html = Some v \<longleftrightarrow>
      (\<exists>g'. re_search L AnalyzerWinrateSimple html = Some g' \<and> py_float L g' = Some v \<and>
         0 \<le> v \<and> v \<le> 100)"
    by (auto simp: analyzer_winrate_simple_def split: option.splits if_splits)
  have s1: "winrate_locator obs = None \<longrightarrow>
        scanner_extract_winrate L obs = scanner_winrate_fallback L obs"
    by (simp add: scanner_extract_winrate_def)
  have s2: "winrate_locator obs = Some text \<and> re_search L ScannerWinrateNumber text = None \<longrightarrow>
        scanner_extract_winrate L obs = None"
    by (simp add: scanner_extract_winrate_def)
  have s3: "winrate_locator obs = Some text \<and> re_search L ScannerWinrateNumber text = Some g \<and>
      py_float L (remove_commas g) = None \<longrightarrow>
        scanner_extract_winrate L obs = scanner_winrate_fallback L obs"
    by (simp add: scanner_extract_winrate_def)
  have s4: "winrate_locator obs = Some text \<and> re_search L ScannerWinrateNumber text = Some g \<and>
      py_float L (remove_commas g) = Some u \<longrightarrow>
        scanner_extract_winrate L obs = (if 0 \<le> u \<and> u \<le> 100 then Some u else None)"
    by (simp add: scanner_extract_winrate_def)
  have s5: "scanner_winrate_fallback L obs = Some v \<longleftrightarrow>
      (\<exists>html' g'. winrate_content obs = Some html' \<and>
         re_search L ScannerWinrateHtml html' = Some g' \<and>
         py_float L (remove_commas g') = Some v \<and> 0 \<le> v \<and> v \<le> 100)"
    by (auto simp: scanner_winrate_fallback_def split: option.splits if_splits)
  have p1: "pnl_content obs = None \<longrightarrow> analyzer_extract_realized_pnl L obs = None"
    by (simp add: analyzer_extract_realized_pnl_def)
  have p2: "pnl_content obs = Some html \<and> re_search L AnalyzerPnlPrimary html = Some g \<longrightarrow>
        analyzer_extract_realized_pnl L obs = py_float L g"
    by (simp add: analyzer_extract_realized_pnl_def)
  have p3: "pnl_content obs = Some html \<and> re_search L AnalyzerPnlPrimary html = None \<and>
      re_search L AnalyzerPnlSimple html = Some g \<longrightarrow>
        analyzer_extract_realized_pnl L obs = py_float L g"
    by (simp add: analyzer_extract_realized_pnl_def)
  have p4: "pnl_content obs = Some html \<and> re_search L AnalyzerPnlPrimary html = None \<and>
      re_search L AnalyzerPnlSimple html = None \<longrightarrow>
        analyzer_extract_realized_pnl L obs = None"
    by (simp add: analyzer_extract_realized_pnl_def)
  have q1: "pnl_locator obs = None \<longrightarrow>
        scanner_extract_realized_pnl L obs = scanner_pnl_fallback L obs"
    by (simp add: scanner_extract_realized_pnl_def)
  have q2: "pnl_locator obs = Some text \<and> re_search L ScannerPnlParen text = Some g \<and>
      py_float L (remove_commas g) = Some p \<longrightarrow> scanner_extract_realized_pnl L obs = Some p"
    by (simp add: scanner_extract_realized_pnl_def)
  have q3: "pnl_locator obs = Some text \<and> re_search L ScannerPnlParen text = Some g \<and>
      py_float L (remove_commas g) = None \<longrightarrow>
        scanner_extract_realized_pnl L obs = scanner_pnl_fallback L obs"
    by (simp add: scanner_extract_realized_pnl_def)
  have q4: "pnl_locator obs = Some text \<and> re_search L ScannerPnlParen text = None \<and>
      re_search L ScannerPnlPercent text = Some g \<and>
      py_float L (remove_commas g) = Some p \<longrightarrow> scanner_extract_realized_pnl L obs = Some p"
    by (simp add: scanner_extract_realized_pnl_def)
  have q5: "pnl_locator obs = Some text \<and> re_search L ScannerPnlParen text = None \<and>
      re_search L ScannerPnlPercent text = Some g \<and>
      py_float L (remove_commas g) = None \<longrightarrow>
        scanner_extract_realized_pnl L obs = scanner_pnl_fallback L obs"
    by (simp add: scanner_extract_realized_pnl_def)
  have q6: "pnl_locator obs = Some text \<and> re_search L ScannerPnlParen text = None \<and>
      re_search L ScannerPnlPercent text = None \<longrightarrow>
        scanner_extract_realized_pnl L obs = None"
    by (simp add: scanner_extract_realized_pnl_def)
  have q7: "scanner_pnl_fallback L obs = Some p \<longleftrightarrow>
      (\<exists>html' g'. pnl_content obs = Some html' \<and>
         re_search L ScannerPnlHtml html' = Some g' \<and>
         py_float L (remove_commas g') = Some p)"
    by (auto simp: scanner_pnl_fallback_def split: option.splits)
  show ?thesis
    by (intro conjI b1 b2 a1 a2 a3 a4 a5 s1 s2 s3 s4 s5 p1 p2 p3 p4 q1 q2 q3 q4 q5 q6 q7)
qed

lemma sample_search:
  "re_search sample_lib ScannerWinrateNumber ''60.0%'' = Some ''60.0''"
  "re_search sample_lib ScannerPnlParen ''$1,234 (150.0%)'' = Some ''150.0''"
  "re_search sample_lib AnalyzerWinratePrimary (sample_html ''60.0'' ''150.0'') = Some ''60.0''"
  "re_search sample_lib AnalyzerPnlPrimary (sample_html ''60.0'' ''150.0'') = Some ''150.0''"
  "py_float sample_lib ''60.0'' = Some 60"
  "py_float sample_lib ''150.0'' = Some 150"
  by code_simp+

text \<open>
  On the sample page with win rate 60 and realized PnL 150: the win rate is returned, and
  so is the PnL, which is above 100.
\<close>

theorem extractors_bound_and_order_witness:
  "pnl_content (sample_page ''60.0'' ''150.0'') = Some (sample_html ''60.0'' ''150.0'') \<and>
   re_search sample_lib AnalyzerPnlPrimary (sample_html ''60.0'' ''150.0'') = Some ''150.0'' \<and>
   py_float sample_lib ''150.0'' = Some 150 \<and>
   analyzer_extract_realized_pnl sample_lib (sample_page ''60.0'' ''150.0'') = Some 150 \<and>
   scanner_extract_realized_pnl sample_lib (sample_page ''60.0'' ''150.0'') = Some 150 \<and>
   \<not> (150::real) \<le> 100 \<and>
   scanner_extract_winrate sample_lib (sample_page ''60.0'' ''150.0'') = Some 60 \<and>
   analyzer_extract_winrate sample_lib (sample_page ''60.0'' ''150.0'') = Some 60 \<and>
   (0 \<le> (60::real) \<and> (60::real) \<le> 100)"
proof -
  have f: "pnl_content (sample_page ''60.0'' ''150.0'') = Some (sample_html ''60.0'' ''150.0'')"
    by (simp add: sample_page_def)
  have g: "re_search sample_lib AnalyzerPnlPrimary (sample_html ''60.0'' ''150.0'') = Some ''150.0''"
    by (rule sample_search)
  have n: "py_float sample_lib ''150.0'' = Some 150"
    by (rule sample_search)
  from extractors_bound_and_order [of sample_lib "sample_page ''60.0'' ''150.0''" 60
      "sample_html ''60.0'' ''150.0''" "''150.0''" 150 "''$1,234 (150.0%)''" 150]
  have "pnl_content (sample_page ''60.0'' ''150.0'') = Some (sample_html ''60.0'' ''150.0'') \<and>
        re_search sample_lib AnalyzerPnlPrimary (sample_html ''60.0'' ''150.0'') = Some ''150.0'' \<longrightarrow>
        analyzer_extract_realized_pnl sample_lib (sample_page ''60.0'' ''150.0'')
          = py_float sample_lib ''150.0''"
    by (elim conjE)
  with f g have pnl: "analyzer_extract_realized_pnl sample_lib (sample_page ''60.0'' ''150.0'')
      = py_float sample_lib ''150.0''"
    by (rule_tac mp) (assumption, rule conjI)
  from extractors_bound_and_order [of sample_lib "sample_page ''60.0'' ''150.0''" 60
      "sample_html ''60.0'' ''150.0''" "''150.0''" 150 "''$1,234 (150.0%)''" 150]
  have "scanner_extract_winrate sample_lib (sample_page ''60.0'' ''150.0'') = Some 60 \<longrightarrow>
        0 \<le> (60::real) \<and> (60::real) \<le> 100"
    by (elim conjE)
  then have r: "0 \<le> (60::real) \<and> (60::real) \<le> 100"
    using sample_extract(5) by (rule mp)
  have b: "\<not> (150::real) \<le> 100" by simp
  show ?thesis
    by (intro conjI f g n pnl [unfolded n] sample_extract b r)
qed

text \<open>
  Claim C7 as stated fails in both modules. In the scanner the locator shows 150, the
  pattern on the HTML would yield 75, and the extractor returns \<^verbatim>\<open>None\<close> without trying it.
  In the analyzer the first pattern matches \<^verbatim>\<open>1.2.3\<close>, the second one would yield 50, and the
  extractor returns \<^verbatim>\<open>None\<close> without trying it.
\<close>

theorem winrate_matcher_order_counterexample:
  "winrate_locator ((sample_page ''75.0'' ''120.0'')\<lparr>winrate_locator := Some ''150.0%''\<rparr>)
      = Some ''150.0%'' \<and>
   re_search sample_lib ScannerWinrateNumber ''150.0%'' = Some ''150.0'' \<and>
   py_float sample_lib (remove_commas ''150.0'') = Some 150 \<and>
   scanner_winrate_fallback sample_lib
      ((sample_page ''75.0'' ''120.0'')\<lparr>winrate_locator := Some ''150.0%''\<rparr>) = Some 75 \<and>
   scanner_extract_winrate sample_lib
      ((sample_page ''75.0'' ''120.0'')\<lparr>winrate_locator := Some ''150.0%''\<rparr>) = None \<and>
   winrate_content garbled_page = Some garbled_html \<and>
   re_search garbled_lib AnalyzerWinratePrimary garbled_html = Some ''1.2.3'' \<and>
   py_float garbled_lib ''1.2.3'' = None \<and>
   analyzer_winrate_simple garbled_lib garbled_html = Some 50 \<and>
   analyzer_extract_winrate garbled_lib garbled_page = None"
  by code_simp

section \<open>Properties of the scan ledger\<close>

lemma digit_char_code: "d < 10 \<Longrightarrow> of_char (digit_char d) = 48 + d"
  by (simp add: digit_char_def)

lemma is_newline_space: "is_newline c \<Longrightarrow> is_space c"
  by (auto simp: is_newline_def is_space_def)

lemma digit_not_space: "d < 10 \<Longrightarrow> \<not> is_space (digit_char d)"
  by (auto simp: is_space_def digit_char_code)

lemma digit_not_bar: "d < 10 \<Longrightarrow> digit_char d \<noteq> CHR ''|''"
proof
  assume "d < 10" "digit_char d = CHR ''|''"
  then have "of_char (digit_char d) = (of_char CHR ''|'' :: nat)" by simp
  with \<open>d < 10\<close> show False by (simp add: digit_char_code)
qed

lemma str_nat_chars: "c \<in> set (str_nat n) \<Longrightarrow> \<not> is_space c \<and> c \<noteq> CHR ''|''"
proof (induction n rule: str_nat.induct)
  case (1 n)
  show ?case
  proof (cases "n < 10")
    case True
    with "1.prems" show ?thesis
      by (subst (asm) str_nat.simps) (auto simp: digit_not_space digit_not_bar)
  next
    case False
    with "1.prems" have "c \<in> set (str_nat (n div 10)) \<or> c = digit_char (n mod 10)"
      by (subst (asm) str_nat.simps) auto
    with False "1.IH" show ?thesis
      by (auto simp: digit_not_space digit_not_bar)
  qed
qed

lemma str_nat_nonempty: "str_nat n \<noteq> []"
  by (subst str_nat.simps) simp

lemma file_lines_nonempty: "cs \<noteq> [] \<Longrightarrow> file_lines cs \<noteq> []"
  by (cases cs) (auto split: list.splits)

lemma file_lines_append:
  "c = [] \<or> is_newline (last c) \<Longrightarrow> file_lines (c @ d) = file_lines c @ file_lines d"
proof (induction c)
  case Nil
  then show ?case by simp
next
  case (Cons x xs)
  show ?case
  proof (cases "xs = []")
    case True
    with Cons.prems show ?thesis by simp
  next
    case False
    with Cons.prems have "is_newline (last xs)" by simp
    with Cons.IH have ih: "file_lines (xs @ d) = file_lines xs @ file_lines d" by simp
    from False obtain l ls where "file_lines xs = l # ls"
      using file_lines_nonempty by (cases "file_lines xs") auto
    with ih show ?thesis by simp
  qed
qed

lemma file_lines_single:
  "list_all (\<lambda>c. \<not> is_newline c) l \<Longrightarrow> file_lines (l @ [CHR 0x0A]) = [l]"
  by (induction l) (auto simp: is_newline_def)

lemma py_strip_id:
  assumes "x \<noteq> []" "\<not> is_space (hd x)" "\<not> is_space (last x)"
  shows "py_strip x = x"
proof -
  from assms have 1: "dropWhile is_space x = x" by (cases x) auto
  from assms have "rev x \<noteq> []" "\<not> is_space (hd (rev x))" by (simp_all add: hd_rev)
  then have 2: "dropWhile is_space (rev x) = rev x" by (cases "rev x") auto
  show ?thesis by (simp add: py_strip_def 1 2)
qed

lemma parse_record:
  assumes "ledger_safe w"
  shows "parse_scanned_line (w @ CHR ''|'' # str_nat t) = Some w"
proof -
  let ?x = "w @ CHR ''|'' # str_nat t"
  have ne: "?x \<noteq> []" by simp
  have sp: "\<not> is_space (CHR ''|'')" by (simp add: is_space_def)
  have h: "\<not> is_space (hd ?x)"
    using assms sp by (cases w) (auto simp: ledger_safe_def)
  have "last ?x = last (str_nat t)" by (simp add: str_nat_nonempty)
  moreover have "last (str_nat t) \<in> set (str_nat t)" by (simp add: str_nat_nonempty)
  ultimately have l: "\<not> is_space (last ?x)" using str_nat_chars by metis
  have s: "py_strip ?x = ?x" using ne h l by (rule py_strip_id)
  have "\<forall>c\<in>set w. c \<noteq> CHR ''|''"
    using assms by (auto simp: ledger_safe_def)
  then have "takeWhile (\<lambda>c. c \<noteq> CHR ''|'') ?x = w"
    by (simp add: takeWhile_tail)
  then show ?thesis
    unfolding parse_scanned_line_def Let_def s by simp
qed

lemma record_no_newline:
  assumes "ledger_safe w"
  shows "list_all (\<lambda>c. \<not> is_newline c) (w @ CHR ''|'' # str_nat t)"
proof -
  have "\<not> is_newline (CHR ''|'')" by (simp add: is_newline_def)
  moreover have "list_all (\<lambda>c. \<not> is_newline c) (str_nat t)"
    using str_nat_chars is_newline_space by (auto simp: list_all_iff)
  ultimately show ?thesis using assms by (simp add: ledger_safe_def)
qed

lemma lines_after_save:
  assumes "c = [] \<or> is_newline (last c)" "ledger_safe w"
  shows "file_lines (c @ w @ CHR ''|'' # str_nat t @ [CHR 0x0A])
           = file_lines c @ [w @ CHR ''|'' # str_nat t]"
proof -
  have "file_lines (c @ ((w @ CHR ''|'' # str_nat t) @ [CHR 0x0A]))
      = file_lines c @ file_lines ((w @ CHR ''|'' # str_nat t) @ [CHR 0x0A])"
    using assms(1) by (rule file_lines_append)
  also have "file_lines ((w @ CHR ''|'' # str_nat t) @ [CHR 0x0A]) = [w @ CHR ''|'' # str_nat t]"
    using record_no_newline [OF assms(2)] by (rule file_lines_single)
  finally show ?thesis by simp
qed

lemma load_after_save:
  assumes "ledger_ready d" "ledger_safe w"
  shows "load_scanned_wallets (save_scanned_wallet d w t) = insert w (load_scanned_wallets d)"
proof (cases "scanned_file d")
  case None
  with assms lines_after_save [of "[]" w t] show ?thesis
    by (simp add: load_scanned_wallets_def save_scanned_wallet_def ledger_ready_def
          List.map_filter_def parse_record)
next
  case (Some c)
  with assms have "c = [] \<or> is_newline (last c)" by (simp add: ledger_ready_def)
  from lines_after_save [OF this assms(2), of t] Some assms show ?thesis
    by (simp add: load_scanned_wallets_def save_scanned_wallet_def ledger_ready_def
          List.map_filter_def parse_record)
qed

lemma ready_after_save: "ledger_ready d \<Longrightarrow> ledger_ready (save_scanned_wallet d w t)"
  by (simp add: ledger_ready_def save_scanned_wallet_def is_newline_def)

lemma save_keeps_results [simp]:
  "good_wallets_file (save_scanned_wallet d w t) = good_wallets_file d"
  "good_readable (save_scanned_wallet d w t) = good_readable d"
  "good_writable (save_scanned_wallet d w t) = good_writable d"
  by (simp_all add: save_scanned_wallet_def)

section \<open>Properties of the workers\<close>

lemma foldl_invariant:
  assumes "I p" "\<And>q i. I q \<Longrightarrow> I (f q i)"
  shows "I (foldl f p sched)"
  using assms(1) by (induction sched arbitrary: p) (simp_all add: assms(2))

lemma analyzer_wallet_task_fields:
  assumes "analyzer_analyze_wallet (library E) cfg w (page_at E (length (trace s)) w) = (res, n)"
  shows "trace (analyzer_wallet_task E cfg wid w s)
           = trace s @ AnalyzeStart wid w # replicate n (Goto wid w) @ [LedgerAppend wid w]"
    and "scanned_wallets (analyzer_wallet_task E cfg wid w s) = insert w (scanned_wallets s)"
    and "total_processed (analyzer_wallet_task E cfg wid w s) = total_processed s + 1"
    and "total_skipped (analyzer_wallet_task E cfg wid w s) = total_skipped s"
    and "results (analyzer_wallet_task E cfg wid w s)
           = (case res of None \<Rightarrow> results s
              | Some r \<Rightarrow> if r_status r = Some ''passed'' then results s @ [r] else results s)"
    and "files (analyzer_wallet_task E cfg wid w s)
           = (case res of None \<Rightarrow> save_scanned_wallet (files s) w (time_at E (length (trace s) + Suc n))
              | Some r \<Rightarrow>
                 if r_status r = Some ''passed'' \<and> good_writable (files s)
                 then (save_scanned_wallet (files s) w (time_at E (length (trace s) + Suc n)))
                        \<lparr>good_wallets_file := Some (results s @ [r])\<rparr>
                 else save_scanned_wallet (files s) w (time_at E (length (trace s) + Suc n)))"
  using assms
  by (simp_all add: analyzer_wallet_task_def Let_def analyzer_save_results_def json_dump_def
        open_for_writing_def split: option.splits)

lemma scanner_record_fields:
  assumes "scanner_analyze_wallet (library E) cfg w (page_at E (length (trace s)) w) = (res, n)"
  shows "trace (scanner_record E cfg pid w s)
           = trace s @ AnalyzeStart pid w # replicate n (Goto pid w)"
    and "scanned_wallets (scanner_record E cfg pid w s) = scanned_wallets s"
    and "total_processed (scanner_record E cfg pid w s) = total_processed s + 1"
    and "total_skipped (scanner_record E cfg pid w s) = total_skipped s"
    and "results (scanner_record E cfg pid w s)
           = (case res of None \<Rightarrow> results s | Some r \<Rightarrow> results s @ [r])"
    and "files (scanner_record E cfg pid w s) = files s"
  using assms
  by (simp_all add: scanner_record_def Let_def split: option.splits)

lemma scanner_claim_fields:
  "w \<in> scanned_wallets s \<Longrightarrow> scanner_claim E pid w s = (False, s\<lparr>total_skipped := total_skipped s + 1\<rparr>)"
  "w \<notin> scanned_wallets s \<Longrightarrow> scanner_claim E pid w s =
     (True, s\<lparr>scanned_wallets := insert w (scanned_wallets s),
              files := save_scanned_wallet (files s) w (time_at E (length (trace s))),
              trace := trace s @ [LedgerAppend pid w]\<rparr>)"
  by (simp_all add: scanner_claim_def TRACKING_AVAILABLE_def Let_def)

subsection \<open>Checkpoints\<close>

lemma saved_wallet_task: "saved G s \<Longrightarrow> saved G (analyzer_wallet_task E cfg wid w s)"
proof -
  assume a: "saved G s"
  obtain res n where r: "analyzer_analyze_wallet (library E) cfg w (page_at E (length (trace s)) w) = (res, n)"
    by fastforce
  from a show ?thesis
    by (auto simp: saved_def analyzer_wallet_task_fields [OF r] split: option.splits)
qed

lemma saved_pool_step: "saved G (fst p) \<Longrightarrow> saved G (fst (analyzer_pool_step E cfg p i))"
proof -
  assume a: "saved G (fst p)"
  show ?thesis
  proof (cases "i < length (snd p)")
    case False
    with a show ?thesis by (simp add: analyzer_pool_step_def)
  next
    case True
    then show ?thesis
      using a by (cases "snd (snd p ! i)") (simp_all add: analyzer_pool_step_def saved_wallet_task)
  qed
qed

lemma saved_pool_run: "saved G (fst p) \<Longrightarrow> saved G (fst (analyzer_pool_run E cfg sched p))"
  unfolding analyzer_pool_run_def
  by (rule foldl_invariant [where I = "\<lambda>p. saved G (fst p)"]) (simp_all add: saved_pool_step)

lemma results_grow_wallet_task:
  "\<exists>ys. results (analyzer_wallet_task E cfg wid w s) = results s @ ys"
proof -
  obtain res n where r: "analyzer_analyze_wallet (library E) cfg w (page_at E (length (trace s)) w) = (res, n)"
    by fastforce
  show ?thesis
    by (auto simp: analyzer_wallet_task_fields [OF r] split: option.splits)
qed

lemma results_grow_pool_step:
  "\<exists>ys. results (fst (analyzer_pool_step E cfg p i)) = results (fst p) @ ys"
proof (cases "i < length (snd p)")
  case False
  then show ?thesis by (simp add: analyzer_pool_step_def)
next
  case True
  then show ?thesis
    using results_grow_wallet_task
    by (cases "snd (snd p ! i)") (simp_all add: analyzer_pool_step_def)
qed

lemma results_grow_pool_run:
  "\<exists>ys. results (fst (analyzer_pool_run E cfg sched p)) = results (fst p) @ ys"
proof (induction sched arbitrary: p)
  case Nil
  then show ?case by (simp add: analyzer_pool_run_def)
next
  case (Cons i sched)
  obtain ys where 1: "results (fst (analyzer_pool_step E cfg p i)) = results (fst p) @ ys"
    using results_grow_pool_step by blast
  obtain zs where 2: "results (fst (analyzer_pool_run E cfg sched (analyzer_pool_step E cfg p i)))
      = results (fst (analyzer_pool_step E cfg p i)) @ zs"
    using Cons.IH by blast
  show ?case
    by (simp add: analyzer_pool_run_def 1 2 [unfolded analyzer_pool_run_def])
qed

subsection \<open>The ledger write and the evaluation\<close>

lemma lf_mono:
  "set seen \<subseteq> set seen' \<Longrightarrow> ledger_first_from seen t \<Longrightarrow> ledger_first_from seen' t"
proof (induction t arbitrary: seen seen')
  case Nil
  then show ?case by simp
next
  case (Cons e t)
  show ?case
  proof (cases e)
    case (LedgerAppend p w)
    with Cons.prems have "ledger_first_from (LedgerAppend p w # seen) t" by simp
    moreover have "set (LedgerAppend p w # seen) \<subseteq> set (LedgerAppend p w # seen')"
      using Cons.prems(1) by auto
    ultimately have "ledger_first_from (LedgerAppend p w # seen') t" by (rule Cons.IH [rotated])
    with LedgerAppend show ?thesis by simp
  next
    case (AnalyzeStart p w)
    with Cons.prems Cons.IH [of seen seen'] show ?thesis by auto
  next
    case (Goto p w)
    with Cons.prems Cons.IH [of seen seen'] show ?thesis by auto
  qed
qed

lemma lf_evals:
  "LedgerAppend p w \<in> set seen \<Longrightarrow>
   ledger_first_from seen (AnalyzeStart p w # replicate n (Goto p w))"
  by (induction n) simp_all

lemma lf_append_eval:
  "ledger_first_from seen t \<Longrightarrow> LedgerAppend p w \<in> set seen \<union> set t \<Longrightarrow>
   ledger_first_from seen (t @ AnalyzeStart p w # replicate n (Goto p w))"
proof (induction t arbitrary: seen)
  case Nil
  then show ?case using lf_evals by simp
next
  case (Cons e t)
  show ?case
  proof (cases e)
    case (LedgerAppend p' w')
    with Cons.prems have "ledger_first_from (LedgerAppend p' w' # seen) t"
      "LedgerAppend p w \<in> set (LedgerAppend p' w' # seen) \<union> set t" by auto
    then have "ledger_first_from (LedgerAppend p' w' # seen)
        (t @ AnalyzeStart p w # replicate n (Goto p w))" by (rule Cons.IH)
    with LedgerAppend show ?thesis by simp
  next
    case (AnalyzeStart p' w')
    with Cons.prems Cons.IH [of seen] show ?thesis by auto
  next
    case (Goto p' w')
    with Cons.prems Cons.IH [of seen] show ?thesis by auto
  qed
qed

lemma lf_append_ledger:
  "ledger_first_from seen t \<Longrightarrow> ledger_first_from seen (t @ [LedgerAppend p w])"
proof (induction t arbitrary: seen)
  case Nil
  then show ?case by simp
next
  case (Cons e t)
  then show ?case by (cases e) auto
qed

text \<open>What the check means for the positions of a trace.\<close>

lemma lf_nth:
  "ledger_first_from seen t \<Longrightarrow> n < length t \<Longrightarrow>
   t ! n = AnalyzeStart p w \<or> t ! n = Goto p w \<Longrightarrow>
   LedgerAppend p w \<in> set seen \<union> set (take n t)"
proof (induction t arbitrary: seen n)
  case Nil
  then show ?case by simp
next
  case (Cons e t)
  show ?case
  proof (cases n)
    case 0
    with Cons.prems show ?thesis by (cases e) auto
  next
    case (Suc m)
    show ?thesis
    proof (cases e)
      case (LedgerAppend p' w')
      with Cons.prems Suc Cons.IH [of "LedgerAppend p' w' # seen" m] show ?thesis by auto
    next
      case (AnalyzeStart p' w')
      with Cons.prems Suc Cons.IH [of seen m] show ?thesis by auto
    next
      case (Goto p' w')
      with Cons.prems Suc Cons.IH [of seen m] show ?thesis by auto
    qed
  qed
qed

lemma ledger_first_nth:
  "ledger_first t \<Longrightarrow> n < length t \<Longrightarrow> t ! n = AnalyzeStart p w \<or> t ! n = Goto p w \<Longrightarrow>
   LedgerAppend p w \<in> set (take n t)"
  using lf_nth [of "[]" t n p w] by (simp add: ledger_first_def)

lemma evaluating_none:
  "evaluating ts = [] \<Longrightarrow> t \<in> set ts \<Longrightarrow> snd t \<noteq> Evaluating w c"
  by (induction ts rule: evaluating.induct) auto

lemma claims_recorded_step:
  assumes "claims_recorded p"
  shows "claims_recorded (scanner_pool_step E cfg p i)"
proof (cases "i < length (snd p)")
  case False
  with assms show ?thesis by (simp add: scanner_pool_step_def)
next
  case True
  obtain s ts where p: "p = (s, ts)" by (cases p)
  obtain pid wk where t: "ts ! i = (pid, wk)" by (cases "ts ! i")
  from True p have i: "i < length ts" by simp
  then have mem: "(pid, wk) \<in> set ts" using t by (metis nth_mem)
  from assms p have lf: "ledger_first (trace s)"
    and ev: "\<And>t w c. t \<in> set ts \<Longrightarrow> snd t = Evaluating w c \<Longrightarrow> LedgerAppend (fst t) w \<in> set (trace s)"
    by (auto simp: claims_recorded_def)
  have upd: "\<And>x. set (ts[i := x]) \<subseteq> insert x (set ts)" by (rule set_update_subset_insert)
  show ?thesis
  proof (cases wk)
    case (Fetching c)
    show ?thesis
    proof (cases c)
      case Nil
      with Fetching p t i lf ev upd show ?thesis
        by (auto simp: scanner_pool_step_def claims_recorded_def dest!: subsetD [OF upd])
    next
      case (Cons w c')
      show ?thesis
      proof (cases "w \<in> scanned_wallets s")
        case True
        with Cons Fetching p t i lf ev show ?thesis
          by (auto simp: scanner_pool_step_def claims_recorded_def scanner_claim_fields
                dest!: subsetD [OF upd])
      next
        case False
        with Cons Fetching p t i lf ev show ?thesis
          by (auto simp: scanner_pool_step_def claims_recorded_def scanner_claim_fields
                ledger_first_def lf_append_ledger dest!: subsetD [OF upd])
      qed
    qed
  next
    case (Evaluating w c)
    obtain res n where r: "scanner_analyze_wallet (library E) cfg w (page_at E (length (trace s)) w) = (res, n)"
      by fastforce
    from ev [OF mem] Evaluating have "LedgerAppend pid w \<in> set (trace s)" by simp
    with lf have "ledger_first (trace s @ AnalyzeStart pid w # replicate n (Goto pid w))"
      by (simp add: ledger_first_def lf_append_eval)
    with Evaluating p t i ev show ?thesis
      by (auto simp: scanner_pool_step_def claims_recorded_def scanner_record_fields [OF r]
            dest!: subsetD [OF upd])
  qed
qed

lemma ledger_first_page_worker:
  "ledger_first (trace s) \<Longrightarrow> ledger_first (trace (scanner_page_worker E cfg pid chunk s))"
proof (induction chunk arbitrary: s)
  case Nil
  then show ?case by simp
next
  case (Cons w chunk)
  show ?case
  proof (cases "w \<in> scanned_wallets s")
    case True
    with Cons show ?thesis by (simp add: scanner_claim_fields)
  next
    case False
    let ?s1 = "s\<lparr>scanned_wallets := insert w (scanned_wallets s),
              files := save_scanned_wallet (files s) w (time_at E (length (trace s))),
              trace := trace s @ [LedgerAppend pid w]\<rparr>"
    obtain res n where r: "scanner_analyze_wallet (library E) cfg w (page_at E (length (trace ?s1)) w) = (res, n)"
      by fastforce
    have l1: "ledger_first_from [] (trace s @ [LedgerAppend pid w])"
      using Cons.prems by (simp add: ledger_first_def lf_append_ledger)
    have "ledger_first_from []
        ((trace s @ [LedgerAppend pid w]) @ AnalyzeStart pid w # replicate n (Goto pid w))"
      using l1 by (rule lf_append_eval) simp
    then have "ledger_first (trace (scanner_record E cfg pid w ?s1))"
      unfolding scanner_record_fields [OF r] by (simp add: ledger_first_def)
    then have "ledger_first (trace (scanner_page_worker E cfg pid chunk (scanner_record E cfg pid w ?s1)))"
      by (rule Cons.IH)
    with False show ?thesis by (simp add: scanner_claim_fields)
  qed
qed

text \<open>
  Claim C8, as amended: in the scanner, under every schedule of the workers and for a
  worker running alone, every evaluation step of a worker on a wallet comes after the
  ledger write of that worker for that wallet.
\<close>

theorem scanner_ledger_before_evaluation:
  assumes "ledger_first (trace s0)" "evaluating tasks = []"
  shows "ledger_first (trace (fst (scanner_pool_run E cfg sched (s0, tasks)))) \<and>
         ledger_first (trace (scanner_page_worker E cfg pid chunk s0))"
proof -
  have "claims_recorded (s0, tasks)"
    using assms evaluating_none by (auto simp: claims_recorded_def)
  then have "claims_recorded (scanner_pool_run E cfg sched (s0, tasks))"
    unfolding scanner_pool_run_def
    by (rule foldl_invariant) (rule claims_recorded_step)
  then show ?thesis
    using assms(1) by (simp add: claims_recorded_def ledger_first_page_worker)
qed


text \<open>
  Two workers of the scanner on three wallets.
\<close>

theorem scanner_ledger_before_evaluation_witness:
  "ledger_first (trace (initial_engine empty_disk)) \<and>
   evaluating [(0, Fetching [''w0'', ''w1'']), (1, Fetching [''w2''])] = [] \<and>
   trace (fst (scanner_pool_run sample_env sample_scanner_config [0, 1, 0, 1, 0, 0]
          (initial_engine empty_disk, [(0, Fetching [''w0'', ''w1'']), (1, Fetching [''w2''])])))
     = [LedgerAppend 0 ''w0'', LedgerAppend 1 ''w2'', AnalyzeStart 0 ''w0'', Goto 0 ''w0'',
        AnalyzeStart 1 ''w2'', Goto 1 ''w2'', LedgerAppend 0 ''w1'', AnalyzeStart 0 ''w1'',
        Goto 0 ''w1''] \<and>
   ledger_first (trace (fst (scanner_pool_run sample_env sample_scanner_config [0, 1, 0, 1, 0, 0]
          (initial_engine empty_disk, [(0, Fetching [''w0'', ''w1'']), (1, Fetching [''w2''])]))))"
proof -
  have h: "ledger_first (trace (initial_engine empty_disk))"
    "evaluating [(0, Fetching [''w0'', ''w1'']), (1, Fetching [''w2''])] = []"
    by (simp_all add: initial_engine_def ledger_first_def)
  have t: "trace (fst (scanner_pool_run sample_env sample_scanner_config [0, 1, 0, 1, 0, 0]
          (initial_engine empty_disk, [(0, Fetching [''w0'', ''w1'']), (1, Fetching [''w2''])])))
     = [LedgerAppend 0 ''w0'', LedgerAppend 1 ''w2'', AnalyzeStart 0 ''w0'', Goto 0 ''w0'',
        AnalyzeStart 1 ''w2'', Goto 1 ''w2'', LedgerAppend 0 ''w1'', AnalyzeStart 0 ''w1'',
        Goto 0 ''w1'']"
    by code_simp
  from scanner_ledger_before_evaluation [OF h, of sample_env sample_scanner_config "[0, 1, 0, 1, 0, 0]"]
  have "ledger_first (trace (fst (scanner_pool_run sample_env sample_scanner_config [0, 1, 0, 1, 0, 0]
          (initial_engine empty_disk, [(0, Fetching [''w0'', ''w1'']), (1, Fetching [''w2''])]))))"
    by blast
  with h t show ?thesis by blast
qed

text \<open>
  Claim C8 as stated fails in the analyzer, which writes the ledger after the evaluation
  has returned.
\<close>

theorem analyzer_ledger_after_evaluation_counterexample:
  "trace (analyzer_page_worker_task sample_env (sample_analyzer_config []) 0 [''w0'']
            (initial_engine empty_disk))
     = [AnalyzeStart 0 ''w0'', Goto 0 ''w0'', LedgerAppend 0 ''w0''] \<and>
   \<not> ledger_first [AnalyzeStart 0 ''w0'', Goto 0 ''w0'', LedgerAppend 0 ''w0'']"
  by code_simp

section \<open>Every wallet is evaluated once by the scanner\<close>

lemma claimed_append [simp]: "claimed (t @ u) = claimed t @ claimed u"
  by (induction t rule: claimed.induct) auto

lemma analyzed_append [simp]: "analyzed (t @ u) = analyzed t @ analyzed u"
  by (induction t rule: analyzed.induct) auto

lemma claimed_gotos [simp]: "claimed (replicate n (Goto p w)) = []"
  by (induction n) auto

lemma analyzed_gotos [simp]: "analyzed (replicate n (Goto p w)) = []"
  by (induction n) auto

lemma evaluating_Cons: "evaluating (t # ts) = evaluating [t] @ evaluating ts"
  by (cases t; cases "snd t") auto

lemma evaluating_single [simp]:
  "evaluating [(p, Fetching c)] = []" "evaluating [(p, Evaluating w c)] = [w]"
  by simp_all

lemma evaluating_update:
  "i < length ts \<Longrightarrow>
   mset (evaluating (ts[i := x])) + mset (evaluating [ts ! i])
     = mset (evaluating ts) + mset (evaluating [x])"
proof (induction ts arbitrary: i)
  case Nil
  then show ?case by simp
next
  case (Cons t ts)
  show ?case
  proof (cases i)
    case 0
    then show ?thesis
      by (simp add: evaluating_Cons [of x ts] evaluating_Cons [of t ts])
  next
    case (Suc j)
    with Cons.prems have "j < length ts" by simp
    from Cons.IH [OF this] Suc show ?thesis
      by (simp add: evaluating_Cons [of t "ts[j := x]"] evaluating_Cons [of t ts])
  qed
qed

lemma pending_update_length:
  "i < length ts \<Longrightarrow>
   length (pending (ts[i := x])) + length (rest_of (snd (ts ! i)))
     = length (pending ts) + length (rest_of (snd x))"
proof (induction ts arbitrary: i)
  case Nil
  then show ?case by simp
next
  case (Cons t ts)
  show ?case
  proof (cases i)
    case 0
    then show ?thesis by (simp add: pending_def)
  next
    case (Suc j)
    with Cons.prems have "j < length ts" by simp
    from Cons.IH [OF this] Suc show ?thesis by (simp add: pending_def)
  qed
qed

lemma pending_update_set:
  "i < length ts \<Longrightarrow>
   set (pending ts) \<subseteq> set (rest_of (snd (ts ! i))) \<union> set (pending (ts[i := x]))"
proof (induction ts arbitrary: i)
  case Nil
  then show ?case by simp
next
  case (Cons t ts)
  show ?case
  proof (cases i)
    case 0
    then show ?thesis by (auto simp: pending_def)
  next
    case (Suc j)
    with Cons.prems have "j < length ts" by simp
    from Cons.IH [OF this] Suc show ?thesis by (auto simp: pending_def)
  qed
qed

lemma distinct_part:
  assumes "distinct ys" "mset ys = mset xs + M"
  shows "distinct xs \<and> set xs \<subseteq> set ys"
proof -
  obtain zs where "mset zs = M" using ex_mset by blast
  with assms(2) have e: "mset ys = mset (xs @ zs)" by simp
  then have "distinct (xs @ zs)" using assms(1) mset_eq_imp_distinct_iff by blast
  moreover have "set ys = set (xs @ zs)" using e by (rule mset_eq_setD)
  ultimately show ?thesis by auto
qed

lemma scanner_pool_step_idle:
  "\<not> i < length (snd p) \<Longrightarrow> scanner_pool_step E cfg p i = p"
  by (simp add: scanner_pool_step_def)

lemma scanner_pool_step_done:
  "i < length ts \<Longrightarrow> ts ! i = (pid, Fetching []) \<Longrightarrow> scanner_pool_step E cfg (s, ts) i = (s, ts)"
  by (simp add: scanner_pool_step_def list_update_same_conv)

lemma scanner_pool_step_skip:
  "i < length ts \<Longrightarrow> ts ! i = (pid, Fetching (w # c)) \<Longrightarrow> w \<in> scanned_wallets s \<Longrightarrow>
   scanner_pool_step E cfg (s, ts) i
     = (s\<lparr>total_skipped := total_skipped s + 1\<rparr>, ts[i := (pid, Fetching c)])"
  by (simp add: scanner_pool_step_def scanner_claim_fields)

lemma scanner_pool_step_claim:
  "i < length ts \<Longrightarrow> ts ! i = (pid, Fetching (w # c)) \<Longrightarrow> w \<notin> scanned_wallets s \<Longrightarrow>
   scanner_pool_step E cfg (s, ts) i
     = (s\<lparr>scanned_wallets := insert w (scanned_wallets s),
           files := save_scanned_wallet (files s) w (time_at E (length (trace s))),
           trace := trace s @ [LedgerAppend pid w]\<rparr>,
        ts[i := (pid, Evaluating w c)])"
  by (simp add: scanner_pool_step_def scanner_claim_fields)

lemma scanner_pool_step_record:
  "i < length ts \<Longrightarrow> ts ! i = (pid, Evaluating w c) \<Longrightarrow>
   scanner_pool_step E cfg (s, ts) i
     = (scanner_record E cfg pid w s, ts[i := (pid, Fetching c)])"
  by (simp add: scanner_pool_step_def)

text \<open>The four kinds of step of a pool of the scanner.\<close>

lemma scanner_pool_step_cases:
  obtains (idle) "scanner_pool_step E cfg (s, ts) i = (s, ts)"
  | (skip) pid w c where "i < length ts" "ts ! i = (pid, Fetching (w # c))" "w \<in> scanned_wallets s"
      "scanner_pool_step E cfg (s, ts) i
         = (s\<lparr>total_skipped := total_skipped s + 1\<rparr>, ts[i := (pid, Fetching c)])"
  | (claim) pid w c where "i < length ts" "ts ! i = (pid, Fetching (w # c))" "w \<notin> scanned_wallets s"
      "scanner_pool_step E cfg (s, ts) i
         = (s\<lparr>scanned_wallets := insert w (scanned_wallets s),
               files := save_scanned_wallet (files s) w (time_at E (length (trace s))),
               trace := trace s @ [LedgerAppend pid w]\<rparr>,
            ts[i := (pid, Evaluating w c)])"
  | (finish) pid w c where "i < length ts" "ts ! i = (pid, Evaluating w c)"
      "scanner_pool_step E cfg (s, ts) i
         = (scanner_record E cfg pid w s, ts[i := (pid, Fetching c)])"
proof (cases "i < length ts")
  case False
  then show ?thesis using idle scanner_pool_step_idle [of i "(s, ts)"] by simp
next
  case True
  obtain pid wk where t: "ts ! i = (pid, wk)" by (cases "ts ! i")
  show ?thesis
  proof (cases wk)
    case (Fetching c)
    show ?thesis
    proof (cases c)
      case Nil
      with True t Fetching show ?thesis using idle scanner_pool_step_done by simp
    next
      case (Cons w c')
      show ?thesis
      proof (cases "w \<in> scanned_wallets s")
        case True
        with \<open>i < length ts\<close> t Fetching Cons show ?thesis
          using skip scanner_pool_step_skip by simp
      next
        case False
        with \<open>i < length ts\<close> t Fetching Cons show ?thesis
          using claim scanner_pool_step_claim by simp
      qed
    qed
  next
    case (Evaluating w c)
    with True t show ?thesis using finish scanner_pool_step_record by simp
  qed
qed

lemma claimed_once_step:
  assumes "claimed_once S0 p"
  shows "claimed_once S0 (scanner_pool_step E cfg p i)"
proof -
  obtain s ts where p: "p = (s, ts)" by (cases p)
  from assms p have a: "scanned_wallets s = S0 \<union> set (claimed (trace s))"
    "distinct (claimed (trace s))" "set (claimed (trace s)) \<inter> S0 = {}"
    "mset (claimed (trace s)) = mset (analyzed (trace s)) + mset (evaluating ts)"
    by (simp_all add: claimed_once_def)
  show ?thesis
  proof (cases rule: scanner_pool_step_cases [of E cfg s ts i])
    case idle
    with assms p show ?thesis by simp
  next
    case (skip pid w c)
    from evaluating_update [OF skip(1), of "(pid, Fetching c)"] skip(2)
    have "mset (evaluating (ts[i := (pid, Fetching c)])) = mset (evaluating ts)" by simp
    with a skip(4) p show ?thesis by (simp add: claimed_once_def)
  next
    case (claim pid w c)
    from evaluating_update [OF claim(1), of "(pid, Evaluating w c)"] claim(2)
    have "mset (evaluating (ts[i := (pid, Evaluating w c)])) = add_mset w (mset (evaluating ts))"
      by simp
    with a claim(3,4) p show ?thesis by (auto simp: claimed_once_def)
  next
    case (finish pid w c)
    obtain res n where r: "scanner_analyze_wallet (library E) cfg w (page_at E (length (trace s)) w) = (res, n)"
      by fastforce
    from evaluating_update [OF finish(1), of "(pid, Fetching c)"] finish(2)
    have "add_mset w (mset (evaluating (ts[i := (pid, Fetching c)]))) = mset (evaluating ts)"
      by simp
    then have "mset (claimed (trace s))
        = add_mset w (mset (analyzed (trace s)) + mset (evaluating (ts[i := (pid, Fetching c)])))"
      using a(4) by simp
    with a finish(3) p show ?thesis
      by (simp add: claimed_once_def scanner_record_fields [OF r])
  qed
qed

lemma counted_step:
  assumes "counted K P0 p"
  shows "counted K P0 (scanner_pool_step E cfg p i)"
proof -
  obtain s ts where p: "p = (s, ts)" by (cases p)
  from assms p have a: "total_skipped s + length (claimed (trace s)) + length (pending ts) = K"
    "total_processed s = P0 + length (analyzed (trace s))"
    by (simp_all add: counted_def)
  show ?thesis
  proof (cases rule: scanner_pool_step_cases [of E cfg s ts i])
    case idle
    with assms p show ?thesis by simp
  next
    case (skip pid w c)
    from pending_update_length [OF skip(1), of "(pid, Fetching c)"] skip(2)
    have "length (pending (ts[i := (pid, Fetching c)])) + 1 = length (pending ts)" by simp
    with a skip(4) p show ?thesis by (simp add: counted_def)
  next
    case (claim pid w c)
    from pending_update_length [OF claim(1), of "(pid, Evaluating w c)"] claim(2)
    have "length (pending (ts[i := (pid, Evaluating w c)])) + 1 = length (pending ts)" by simp
    with a claim(4) p show ?thesis by (simp add: counted_def)
  next
    case (finish pid w c)
    obtain res n where r: "scanner_analyze_wallet (library E) cfg w (page_at E (length (trace s)) w) = (res, n)"
      by fastforce
    from pending_update_length [OF finish(1), of "(pid, Fetching c)"] finish(2)
    have "length (pending (ts[i := (pid, Fetching c)])) = length (pending ts)" by simp
    with a finish(3) p show ?thesis
      by (simp add: counted_def scanner_record_fields [OF r])
  qed
qed

text \<open>
  Claim C10. In the scanner, whatever the chunks of the workers hold (the same address may
  occur several times, in one chunk or in several) and however the workers are interleaved,
  a run that starts with an empty trace and no worker inside an evaluation evaluates every
  address at most once: the list of evaluated addresses has no repetition, none of them was
  in the scanned set at the start, and all of them are in the scanned set afterwards. Every
  evaluation is counted once in \<open>total_processed\<close>, and every address taken from a chunk
  was either claimed or counted in \<open>total_skipped\<close>. The last two conjuncts are the test
  and insert under the lock: an address already in the scanned set is skipped and only
  counted, any other one is inserted and its evaluation goes ahead.
\<close>

theorem scanner_evaluates_each_wallet_once:
  assumes "trace s0 = []" "evaluating tasks = []"
  shows "distinct (analyzed (trace (fst (scanner_pool_run E cfg sched (s0, tasks))))) \<and>
         set (analyzed (trace (fst (scanner_pool_run E cfg sched (s0, tasks)))))
           \<inter> scanned_wallets s0 = {} \<and>
         set (analyzed (trace (fst (scanner_pool_run E cfg sched (s0, tasks)))))
           \<subseteq> scanned_wallets (fst (scanner_pool_run E cfg sched (s0, tasks))) \<and>
         total_processed (fst (scanner_pool_run E cfg sched (s0, tasks)))
           = total_processed s0
             + length (analyzed (trace (fst (scanner_pool_run E cfg sched (s0, tasks))))) \<and>
         total_skipped (fst (scanner_pool_run E cfg sched (s0, tasks)))
           + length (claimed (trace (fst (scanner_pool_run E cfg sched (s0, tasks)))))
           + length (pending (snd (scanner_pool_run E cfg sched (s0, tasks))))
           = total_skipped s0 + length (pending tasks) \<and>
         (w \<in> scanned_wallets s \<longrightarrow>
            scanner_claim E pid w s = (False, s\<lparr>total_skipped := total_skipped s + 1\<rparr>)) \<and>
         (w \<notin> scanned_wallets s \<longrightarrow>
            fst (scanner_claim E pid w s) \<and> w \<in> scanned_wallets (snd (scanner_claim E pid w s)))"
proof -
  let ?p = "scanner_pool_run E cfg sched (s0, tasks)"
  have "claimed_once (scanned_wallets s0) (s0, tasks)"
    using assms by (simp add: claimed_once_def)
  then have "claimed_once (scanned_wallets s0) ?p"
    unfolding scanner_pool_run_def by (rule foldl_invariant) (rule claimed_once_step)
  then have c: "scanned_wallets (fst ?p) = scanned_wallets s0 \<union> set (claimed (trace (fst ?p)))"
    "distinct (claimed (trace (fst ?p)))" "set (claimed (trace (fst ?p))) \<inter> scanned_wallets s0 = {}"
    "mset (claimed (trace (fst ?p))) = mset (analyzed (trace (fst ?p))) + mset (evaluating (snd ?p))"
    by (simp_all add: claimed_once_def)
  from distinct_part [OF c(2) c(4)]
  have d: "distinct (analyzed (trace (fst ?p)))"
    "set (analyzed (trace (fst ?p))) \<subseteq> set (claimed (trace (fst ?p)))" by simp_all
  have "counted (total_skipped s0 + length (pending tasks)) (total_processed s0) (s0, tasks)"
    using assms by (simp add: counted_def)
  then have "counted (total_skipped s0 + length (pending tasks)) (total_processed s0) ?p"
    unfolding scanner_pool_run_def by (rule foldl_invariant) (rule counted_step)
  then have k: "total_processed (fst ?p) = total_processed s0 + length (analyzed (trace (fst ?p)))"
    "total_skipped (fst ?p) + length (claimed (trace (fst ?p))) + length (pending (snd ?p))
       = total_skipped s0 + length (pending tasks)"
    by (simp_all add: counted_def)
  have 1: "set (analyzed (trace (fst ?p))) \<inter> scanned_wallets s0 = {}"
    using d(2) c(3) by blast
  have 2: "set (analyzed (trace (fst ?p))) \<subseteq> scanned_wallets (fst ?p)"
    using d(2) c(1) by blast
  have 3: "w \<in> scanned_wallets s \<longrightarrow>
            scanner_claim E pid w s = (False, s\<lparr>total_skipped := total_skipped s + 1\<rparr>)"
    by (simp add: scanner_claim_fields)
  have 4: "w \<notin> scanned_wallets s \<longrightarrow>
            fst (scanner_claim E pid w s) \<and> w \<in> scanned_wallets (snd (scanner_claim E pid w s))"
    by (simp add: scanner_claim_fields)
  show ?thesis by (intro conjI d(1) 1 2 k 3 4)
qed

theorem scanner_evaluates_each_wallet_once_witness:
  "trace (initial_engine empty_disk) = [] \<and>
   evaluating [(0, Fetching [''w0'', ''w0'']), (1, Fetching [''w0'', ''w1''])] = [] \<and>
   analyzed (trace (fst (scanner_pool_run sample_env sample_scanner_config [0, 1, 0, 0, 1, 1]
      (initial_engine empty_disk, [(0, Fetching [''w0'', ''w0'']), (1, Fetching [''w0'', ''w1''])]))))
     = [''w0'', ''w1''] \<and>
   distinct (analyzed (trace (fst (scanner_pool_run sample_env sample_scanner_config [0, 1, 0, 0, 1, 1]
      (initial_engine empty_disk, [(0, Fetching [''w0'', ''w0'']), (1, Fetching [''w0'', ''w1''])]))))) \<and>
   total_processed (fst (scanner_pool_run sample_env sample_scanner_config [0, 1, 0, 0, 1, 1]
      (initial_engine empty_disk, [(0, Fetching [''w0'', ''w0'']), (1, Fetching [''w0'', ''w1''])]))) = 2 \<and>
   total_skipped (fst (scanner_pool_run sample_env sample_scanner_config [0, 1, 0, 0, 1, 1]
      (initial_engine empty_disk, [(0, Fetching [''w0'', ''w0'']), (1, Fetching [''w0'', ''w1''])]))) = 2"
proof -
  let ?p = "scanner_pool_run sample_env sample_scanner_config [0, 1, 0, 0, 1, 1]
      (initial_engine empty_disk, [(0, Fetching [''w0'', ''w0'']), (1, Fetching [''w0'', ''w1''])])"
  have h: "trace (initial_engine empty_disk) = []"
    "evaluating [(0, Fetching [''w0'', ''w0'']), (1, Fetching [''w0'', ''w1''])] = []"
    by (simp_all add: initial_engine_def)
  have e: "analyzed (trace (fst ?p)) = [''w0'', ''w1'']" "total_processed (fst ?p) = 2"
    "total_skipped (fst ?p) = 2"
    by code_simp+
  from scanner_evaluates_each_wallet_once [OF h, of sample_env sample_scanner_config "[0, 1, 0, 0, 1, 1]"]
  have "distinct (analyzed (trace (fst ?p)))" by blast
  with h e show ?thesis by blast
qed

section \<open>The result file during and after a run\<close>

lemma same_results_file_step:
  assumes "same_results_file d (files (fst p))"
  shows "same_results_file d (files (fst (scanner_pool_step E cfg p i)))"
proof -
  obtain s ts where p: "p = (s, ts)" by (cases p)
  from assms p have a: "same_results_file d (files s)" by simp
  show ?thesis
  proof (cases rule: scanner_pool_step_cases [of E cfg s ts i])
    case idle
    with a p show ?thesis by simp
  next
    case (skip pid w c)
    with a p show ?thesis by simp
  next
    case (claim pid w c)
    with a p show ?thesis by (simp add: same_results_file_def)
  next
    case (finish pid w c)
    obtain res m where "scanner_analyze_wallet (library E) cfg w (page_at E (length (trace s)) w) = (res, m)"
      by fastforce
    then have "files (scanner_record E cfg pid w s) = files s"
      by (rule scanner_record_fields)
    with a p finish show ?thesis by simp
  qed
qed

lemma same_results_file_run:
  "same_results_file d (files (fst p)) \<Longrightarrow>
   same_results_file d (files (fst (scanner_pool_run E cfg sched p)))"
  unfolding scanner_pool_run_def
  by (rule foldl_invariant [where I = "\<lambda>p. same_results_file d (files (fst p))"])
     (simp_all add: same_results_file_step)

lemma existing_results_same:
  "same_results_file d d' \<Longrightarrow> existing_results d' = existing_results d"
  by (simp add: same_results_file_def existing_results_def split: option.splits)

lemma scanner_save_results_file:
  assumes "scanner_save_results s1 = Inr s"
  shows "results s = results s1"
    and "good_wallets_file (files s)
           = (if results s1 = [] then good_wallets_file (files s1)
              else Some (existing_results (files s1) @ results s1))"
  using assms
  by (auto simp: scanner_save_results_def json_dump_def open_for_writing_def split: if_splits)

lemma scanner_run_file:
  assumes "scanner_run E sched cfg W d = Some (Inr s)"
  shows "good_wallets_file (files s)
           = (if results s = [] then good_wallets_file d
              else Some (existing_results d @ results s))"
proof (cases "W = [] \<or> filter (\<lambda>w. w \<notin> scanned_wallets (scanner_load_scanned d)) W = []")
  case True
  with assms have "s = initial_engine d \<or> s = scanner_load_scanned d"
    by (auto simp: scanner_run_def split: if_splits)
  then show ?thesis
    by (auto simp: initial_engine_def scanner_load_scanned_def)
next
  case False
  let ?un = "filter (\<lambda>w. w \<notin> scanned_wallets (scanner_load_scanned d)) W"
  from False assms have r: "scanner_run_workers E sched cfg (scanner_load_scanned d)
      (scanner_distribute_wallets (sc_num_pages cfg) ?un) = Some (Inr s)"
    by (simp add: scanner_run_def)
  then obtain chunks where c: "scanner_distribute_wallets (sc_num_pages cfg) ?un = Inr chunks"
    by (cases "scanner_distribute_wallets (sc_num_pages cfg) ?un") simp_all
  let ?p = "scanner_pool_run E cfg sched
              (scanner_load_scanned d,
               map (\<lambda>t. (fst t, Fetching (snd t)))
                 (worker_tasks (create_pages (sc_num_pages cfg)) chunks))"
  from r c have g: "scanner_gather ?p = Some (Inr s)"
    by (simp split: if_splits)
  then have sv: "scanner_save_results (fst ?p) = Inr s"
    by (simp add: scanner_gather_def split: if_splits)
  have "same_results_file d (files (fst (scanner_load_scanned d,
               map (\<lambda>t. (fst t, Fetching (snd t)))
                 (worker_tasks (create_pages (sc_num_pages cfg)) chunks))))"
    by (simp add: same_results_file_def scanner_load_scanned_def initial_engine_def)
  then have same: "same_results_file d (files (fst ?p))"
    by (rule same_results_file_run)
  then have 1: "good_wallets_file (files (fst ?p)) = good_wallets_file d"
    by (simp add: same_results_file_def)
  have 2: "existing_results (files (fst ?p)) = existing_results d"
    using same by (rule existing_results_same)
  show ?thesis
    using scanner_save_results_file [OF sv] by (simp only: 1 2)
qed

lemma analyzer_run_file:
  assumes "good_writable d" "analyzer_run E sched cfg d = Some (sm, s)" "success sm"
    "fst (analyzer_load_unscanned_wallets cfg (initial_engine d)) \<noteq> []"
  shows "good_wallets_file (files s) = Some (results s) \<and> good_wallets sm = results s"
proof -
  let ?s0 = "snd (analyzer_load_unscanned_wallets cfg (initial_engine d))"
  let ?un = "fst (analyzer_load_unscanned_wallets cfg (initial_engine d))"
  have s0: "files ?s0 = d" "results ?s0 = []"
    by (simp_all add: analyzer_load_unscanned_wallets_def initial_engine_def)
  from assms(3) have ns: "sm \<noteq> summary_of False s'" for s'
    by (auto simp: summary_of_def)
  from assms(2,4) ns have r: "analyzer_run_workers E sched cfg ?s0
      (analyzer_distribute_wallets ?un (int (length (create_pages (num_pages cfg))))) = Some (sm, s)"
    by (auto simp: analyzer_run_def split: if_splits)
  then obtain chunks where
    c: "analyzer_distribute_wallets ?un (int (length (create_pages (num_pages cfg)))) = Inr chunks"
    using ns
    by (cases "analyzer_distribute_wallets ?un (int (length (create_pages (num_pages cfg))))") auto
  let ?p = "analyzer_pool_run E cfg sched (?s0, worker_tasks (create_pages (num_pages cfg)) chunks)"
  from r c have "analyzer_gather ?p = Some (sm, s)" by simp
  then have e: "s = analyzer_save_results (fst ?p)" "sm = summary_of True s"
    by (auto simp: analyzer_gather_def split: if_splits)
  have "saved (good_wallets_file d) (fst (?s0, worker_tasks (create_pages (num_pages cfg)) chunks))"
    using assms(1) s0 by (simp add: saved_def)
  then have "saved (good_wallets_file d) (fst ?p)" by (rule saved_pool_run)
  then have "good_writable (files (fst ?p))" by (simp add: saved_def)
  then have "good_wallets_file (files s) = Some (results s)"
    unfolding e(1) by (simp add: analyzer_save_results_def json_dump_def open_for_writing_def)
  moreover have "good_wallets sm = results s"
    unfolding e(2) by (simp add: summary_of_def)
  ultimately show ?thesis by simp
qed

text \<open>
  Claim C4, as amended. In the analyzer, when the result file can be written and whatever
  the schedule of the workers: between two steps of the workers the file holds exactly the
  results recorded so far in this run as soon as one wallet has passed, and until then what
  the run found; the recorded results only grow as the run goes on; the step that records a
  passing wallet appends it and writes the whole list at once. Inside \<^verbatim>\<open>_save_results\<close> the
  file is first emptied, so a write that is stopped there leaves no result in the file. The
  file is replaced: a run that returns with success after evaluating something leaves in it
  its own results only, and nothing of a prior run. In the scanner, recording an outcome
  writes no file and the result file is the same during the whole run of the workers,
  whatever has passed; a run that returns has left the file as it found it when nothing
  passed, and has else written, once, the results it could read from the file followed by
  those of this run.
\<close>

theorem checkpoint_after_every_pass:
  assumes "good_writable (files s0)" "results s0 = []"
  shows "good_wallets_file (files (fst (analyzer_pool_run E cfg sched (s0, tasks))))
           = (if results (fst (analyzer_pool_run E cfg sched (s0, tasks))) = []
              then good_wallets_file (files s0)
              else Some (results (fst (analyzer_pool_run E cfg sched (s0, tasks))))) \<and>
         (scanner_run E' sched' scfg W d' = Some (Inr s') \<longrightarrow>
            good_wallets_file (files s')
              = (if results s' = [] then good_wallets_file d'
                 else Some (existing_results d' @ results s'))) \<and>
         (\<exists>ys. results (fst (analyzer_pool_run E cfg (sched @ sched'') (s0, tasks)))
                  = results (fst (analyzer_pool_run E cfg sched (s0, tasks))) @ ys) \<and>
         (analyzer_analyze_wallet (library E) cfg w (page_at E (length (trace s)) w) = (Some r, n) \<and>
          r_status r = Some ''passed'' \<and> good_writable (files s) \<longrightarrow>
            results (analyzer_wallet_task E cfg wid w s) = results s @ [r] \<and>
            good_wallets_file (files (analyzer_wallet_task E cfg wid w s)) = Some (results s @ [r])) \<and>
         (good_writable (files s) \<longrightarrow>
            good_wallets_file (files (analyzer_save_results_interrupted s)) = Some [] \<and>
            good_wallets_file (files (analyzer_save_results s)) = Some (results s)) \<and>
         (good_writable d \<and> analyzer_run E sched cfg d = Some (sm, s1) \<and> success sm \<and>
          fst (analyzer_load_unscanned_wallets cfg (initial_engine d)) \<noteq> [] \<longrightarrow>
            good_wallets_file (files s1) = Some (results s1) \<and> good_wallets sm = results s1) \<and>
         files (scanner_record E scfg pid w s) = files s \<and>
         good_wallets_file (files (fst (scanner_pool_run E scfg sched p)))
           = good_wallets_file (files (fst p))"
proof -
  have "saved (good_wallets_file (files s0)) (fst (s0, tasks))"
    using assms by (simp add: saved_def)
  then have "saved (good_wallets_file (files s0)) (fst (analyzer_pool_run E cfg sched (s0, tasks)))"
    by (rule saved_pool_run)
  then have 1: "good_wallets_file (files (fst (analyzer_pool_run E cfg sched (s0, tasks))))
           = (if results (fst (analyzer_pool_run E cfg sched (s0, tasks))) = []
              then good_wallets_file (files s0)
              else Some (results (fst (analyzer_pool_run E cfg sched (s0, tasks)))))"
    by (simp add: saved_def)
  have 2: "scanner_run E' sched' scfg W d' = Some (Inr s') \<longrightarrow>
            good_wallets_file (files s')
              = (if results s' = [] then good_wallets_file d'
                 else Some (existing_results d' @ results s'))"
    using scanner_run_file by blast
  have "analyzer_pool_run E cfg (sched @ sched'') (s0, tasks)
      = analyzer_pool_run E cfg sched'' (analyzer_pool_run E cfg sched (s0, tasks))"
    by (simp add: analyzer_pool_run_def)
  then have 3: "\<exists>ys. results (fst (analyzer_pool_run E cfg (sched @ sched'') (s0, tasks)))
                  = results (fst (analyzer_pool_run E cfg sched (s0, tasks))) @ ys"
    using results_grow_pool_run by simp
  have 4: "analyzer_analyze_wallet (library E) cfg w (page_at E (length (trace s)) w) = (Some r, n) \<and>
          r_status r = Some ''passed'' \<and> good_writable (files s) \<longrightarrow>
            results (analyzer_wallet_task E cfg wid w s) = results s @ [r] \<and>
            good_wallets_file (files (analyzer_wallet_task E cfg wid w s)) = Some (results s @ [r])"
    by (auto simp: analyzer_wallet_task_fields)
  have 5: "good_writable (files s) \<longrightarrow>
            good_wallets_file (files (analyzer_save_results_interrupted s)) = Some [] \<and>
            good_wallets_file (files (analyzer_save_results s)) = Some (results s)"
    by (simp add: analyzer_save_results_interrupted_def analyzer_save_results_def
          json_dump_def open_for_writing_def)
  have 6: "good_writable d \<and> analyzer_run E sched cfg d = Some (sm, s1) \<and> success sm \<and>
          fst (analyzer_load_unscanned_wallets cfg (initial_engine d)) \<noteq> [] \<longrightarrow>
            good_wallets_file (files s1) = Some (results s1) \<and> good_wallets sm = results s1"
    using analyzer_run_file by blast
  obtain res m where "scanner_analyze_wallet (library E) scfg w (page_at E (length (trace s)) w) = (res, m)"
    by fastforce
  then have 7: "files (scanner_record E scfg pid w s) = files s"
    by (rule scanner_record_fields)
  have "same_results_file (files (fst p)) (files (fst p))"
    by (simp add: same_results_file_def)
  then have "same_results_file (files (fst p)) (files (fst (scanner_pool_run E scfg sched p)))"
    by (rule same_results_file_run)
  then have 8: "good_wallets_file (files (fst (scanner_pool_run E scfg sched p)))
           = good_wallets_file (files (fst p))"
    by (simp add: same_results_file_def)
  show ?thesis by (intro conjI 1 2 3 4 5 6 7 8)
qed

text \<open>
  One worker on two wallets in the analyzer, stopped after the first, which passes. A whole
  run of the scanner on two wallets, of which the first passes, with a result file of a
  prior run.
\<close>

theorem checkpoint_after_every_pass_witness:
  "good_writable (files (initial_engine empty_disk)) \<and>
   results (initial_engine empty_disk) = [] \<and>
   results (fst (analyzer_pool_run sample_env (sample_analyzer_config []) [0]
                   (initial_engine empty_disk, [(0, [''w0'', ''w1''])])))
     = [\<lparr>r_wallet = ''w0'', r_winrate = 75, r_realizedPnL = 120, r_status = Some ''passed''\<rparr>] \<and>
   good_wallets_file (files (fst (analyzer_pool_run sample_env (sample_analyzer_config []) [0]
                   (initial_engine empty_disk, [(0, [''w0'', ''w1''])]))))
     = Some [\<lparr>r_wallet = ''w0'', r_winrate = 75, r_realizedPnL = 120, r_status = Some ''passed''\<rparr>] \<and>
   (case scanner_run sample_env [0, 0, 1, 1] sample_scanner_config [''w0'', ''w1'']
           (empty_disk\<lparr>good_wallets_file :=
              Some [\<lparr>r_wallet = ''old'', r_winrate = 80, r_realizedPnL = 200, r_status = None\<rparr>]\<rparr>) of
      Some (Inr s) \<Rightarrow> results s | _ \<Rightarrow> [])
     = [\<lparr>r_wallet = ''w0'', r_winrate = 75, r_realizedPnL = 120, r_status = None\<rparr>] \<and>
   (case scanner_run sample_env [0, 0, 1, 1] sample_scanner_config [''w0'', ''w1'']
           (empty_disk\<lparr>good_wallets_file :=
              Some [\<lparr>r_wallet = ''old'', r_winrate = 80, r_realizedPnL = 200, r_status = None\<rparr>]\<rparr>) of
      Some (Inr s) \<Rightarrow> good_wallets_file (files s) | _ \<Rightarrow> None)
     = Some [\<lparr>r_wallet = ''old'', r_winrate = 80, r_realizedPnL = 200, r_status = None\<rparr>,
             \<lparr>r_wallet = ''w0'', r_winrate = 75, r_realizedPnL = 120, r_status = None\<rparr>]"
proof -
  let ?s = "fst (analyzer_pool_run sample_env (sample_analyzer_config []) [0]
                   (initial_engine empty_disk, [(0, [''w0'', ''w1''])]))"
  let ?d = "empty_disk\<lparr>good_wallets_file :=
              Some [\<lparr>r_wallet = ''old'', r_winrate = 80, r_realizedPnL = 200, r_status = None\<rparr>]\<rparr>"
  let ?run = "scanner_run sample_env [0, 0, 1, 1] sample_scanner_config [''w0'', ''w1''] ?d"
  have h: "good_writable (files (initial_engine empty_disk))" "results (initial_engine empty_disk) = []"
    by (simp_all add: initial_engine_def empty_disk_def)
  have e: "results ?s
     = [\<lparr>r_wallet = ''w0'', r_winrate = 75, r_realizedPnL = 120, r_status = Some ''passed''\<rparr>]"
    by code_simp
  have "good_wallets_file (files ?s)
      = (if results ?s = [] then good_wallets_file (files (initial_engine empty_disk))
         else Some (results ?s))"
    by (rule checkpoint_after_every_pass [OF h, THEN conjunct1])
  then have a: "good_wallets_file (files ?s)
     = Some [\<lparr>r_wallet = ''w0'', r_winrate = 75, r_realizedPnL = 120, r_status = Some ''passed''\<rparr>]"
    by (simp only: e) simp
  have e2: "(case ?run of Some (Inr s) \<Rightarrow> results s | _ \<Rightarrow> [])
     = [\<lparr>r_wallet = ''w0'', r_winrate = 75, r_realizedPnL = 120, r_status = None\<rparr>]"
    by code_simp
  have e3: "existing_results ?d
     = [\<lparr>r_wallet = ''old'', r_winrate = 80, r_realizedPnL = 200, r_status = None\<rparr>]"
    "good_wallets_file ?d
     = Some [\<lparr>r_wallet = ''old'', r_winrate = 80, r_realizedPnL = 200, r_status = None\<rparr>]"
    by (simp_all add: existing_results_def empty_disk_def)
  obtain s where run: "?run = Some (Inr s)"
    and rs: "results s = [\<lparr>r_wallet = ''w0'', r_winrate = 75, r_realizedPnL = 120, r_status = None\<rparr>]"
    using e2 by (cases ?run) (auto split: sum.splits)
  have "?run = Some (Inr s) \<longrightarrow>
      good_wallets_file (files s)
        = (if results s = [] then good_wallets_file ?d else Some (existing_results ?d @ results s))"
    by (rule checkpoint_after_every_pass [OF h, THEN conjunct2, THEN conjunct1])
  then have "good_wallets_file (files s)
        = (if results s = [] then good_wallets_file ?d else Some (existing_results ?d @ results s))"
    using run by (rule mp)
  then have b: "good_wallets_file (files s)
     = Some [\<lparr>r_wallet = ''old'', r_winrate = 80, r_realizedPnL = 200, r_status = None\<rparr>,
             \<lparr>r_wallet = ''w0'', r_winrate = 75, r_realizedPnL = 120, r_status = None\<rparr>]"
    by (simp only: rs e3) simp
  have c: "(case ?run of Some (Inr s) \<Rightarrow> good_wallets_file (files s) | _ \<Rightarrow> None)
     = Some [\<lparr>r_wallet = ''old'', r_winrate = 80, r_realizedPnL = 200, r_status = None\<rparr>,
             \<lparr>r_wallet = ''w0'', r_winrate = 75, r_realizedPnL = 120, r_status = None\<rparr>]"
    by (simp only: run option.case sum.case b)
  show ?thesis
    by (intro conjI h e a e2 c)
qed

text \<open>
  Claim C4 as stated fails in both modules. The scanner has recorded a passing wallet and
  written nothing. The analyzer starts with a result file of a prior run, and after its
  first checkpoint that result is gone from the file. The analyzer has stored a passing
  result, and the last \<^verbatim>\<open>_save_results\<close> of the run, stopped between \<^verbatim>\<open>open\<close> and
  \<^verbatim>\<open>json.dump\<close>, leaves the file empty.
\<close>

theorem checkpoint_counterexample:
  "results (scanner_record sample_env sample_scanner_config 0 ''w0'' (initial_engine empty_disk))
     = [\<lparr>r_wallet = ''w0'', r_winrate = 75, r_realizedPnL = 120, r_status = None\<rparr>] \<and>
   good_wallets_file (files (scanner_record sample_env sample_scanner_config 0 ''w0''
                               (initial_engine empty_disk))) = None \<and>
   good_wallets_file (files (analyzer_wallet_task sample_env (sample_analyzer_config []) 0 ''w0''
       (initial_engine (empty_disk\<lparr>good_wallets_file :=
          Some [\<lparr>r_wallet = ''old'', r_winrate = 80, r_realizedPnL = 200,
                  r_status = Some ''passed''\<rparr>]\<rparr>))))
     = Some [\<lparr>r_wallet = ''w0'', r_winrate = 75, r_realizedPnL = 120, r_status = Some ''passed''\<rparr>] \<and>
   good_wallets_file (files (fst (analyzer_pool_run sample_env (sample_analyzer_config []) [0]
       (initial_engine empty_disk, [(0, [''w0''])]))))
     = Some [\<lparr>r_wallet = ''w0'', r_winrate = 75, r_realizedPnL = 120, r_status = Some ''passed''\<rparr>] \<and>
   good_wallets_file (files (analyzer_save_results_interrupted
       (fst (analyzer_pool_run sample_env (sample_analyzer_config []) [0]
          (initial_engine empty_disk, [(0, [''w0''])])))))
     = Some []"
  by code_simp

section \<open>A second run on the same wallets\<close>

lemma concat_map_update_lower:
  "i < length ts \<Longrightarrow>
   set (concat (map f ts)) \<subseteq> set (f (ts ! i)) \<union> set (concat (map f (ts[i := x])))"
proof (induction ts arbitrary: i)
  case Nil
  then show ?case by simp
next
  case (Cons t ts)
  show ?case
  proof (cases i)
    case 0
    then show ?thesis by auto
  next
    case (Suc j)
    with Cons.prems have "j < length ts" by simp
    from Cons.IH [OF this] Suc show ?thesis by auto
  qed
qed

lemma concat_map_update_upper:
  "set (concat (map f (ts[i := x]))) \<subseteq> set (concat (map f ts)) \<union> set (f x)"
proof -
  have "set (ts[i := x]) \<subseteq> insert x (set ts)" by (rule set_update_subset_insert)
  then show ?thesis by auto
qed

lemma concat_map_nth: "i < length ts \<Longrightarrow> set (f (ts ! i)) \<subseteq> set (concat (map f ts))"
  by (auto intro: nth_mem)

lemma ledger_ready_good [simp]:
  "ledger_ready (d\<lparr>good_wallets_file := x\<rparr>) = ledger_ready d"
  "load_scanned_wallets (d\<lparr>good_wallets_file := x\<rparr>) = load_scanned_wallets d"
  by (simp_all add: ledger_ready_def load_scanned_wallets_def split: option.splits)

lemma analyzer_wallet_task_ledger:
  assumes "ledger_ready (files s)" "ledger_safe w"
  shows "ledger_ready (files (analyzer_wallet_task E cfg wid w s))"
    and "load_scanned_wallets (files (analyzer_wallet_task E cfg wid w s))
           = insert w (load_scanned_wallets (files s))"
proof -
  obtain res n where r: "analyzer_analyze_wallet (library E) cfg w (page_at E (length (trace s)) w) = (res, n)"
    by fastforce
  show "ledger_ready (files (analyzer_wallet_task E cfg wid w s))"
    using assms by (simp add: analyzer_wallet_task_fields [OF r] ready_after_save split: option.splits)
  show "load_scanned_wallets (files (analyzer_wallet_task E cfg wid w s))
           = insert w (load_scanned_wallets (files s))"
    using assms by (simp add: analyzer_wallet_task_fields [OF r] load_after_save split: option.splits)
qed

lemma analyzer_recorded_step:
  assumes "analyzer_recorded W p"
  shows "analyzer_recorded W (analyzer_pool_step E cfg p i)"
proof (cases "i < length (snd p)")
  case False
  with assms show ?thesis by (simp add: analyzer_pool_step_def)
next
  case True
  obtain s ts where p: "p = (s, ts)" by (cases p)
  obtain wid chunk where t: "ts ! i = (wid, chunk)" by (cases "ts ! i")
  from True p have i: "i < length ts" by simp
  from assms p have a: "ledger_ready (files s)"
    "\<And>w. w \<in> set (concat (map snd ts)) \<Longrightarrow> ledger_safe w"
    "\<And>w. w \<in> W \<Longrightarrow> w \<in> load_scanned_wallets (files s) \<or> w \<in> set (concat (map snd ts))"
    by (auto simp: analyzer_recorded_def)
  show ?thesis
  proof (cases chunk)
    case Nil
    with t i have "ts[i := (wid, [])] = ts" by (simp add: list_update_same_conv)
    with Nil t i p assms show ?thesis by (simp add: analyzer_pool_step_def)
  next
    case (Cons w c)
    let ?ts' = "ts[i := (wid, c)]"
    have step: "analyzer_pool_step E cfg p i = (analyzer_wallet_task E cfg wid w s, ?ts')"
      using Cons t i p by (simp add: analyzer_pool_step_def)
    have here: "set (w # c) \<subseteq> set (concat (map snd ts))"
      using concat_map_nth [OF i, of snd] t Cons by simp
    then have safe: "ledger_safe w" using a(2) by simp
    have up: "set (concat (map snd ?ts')) \<subseteq> set (concat (map snd ts))"
      using concat_map_update_upper [of snd ts i "(wid, c)"] here by auto
    have low: "set (concat (map snd ts)) \<subseteq> insert w (set (concat (map snd ?ts')))"
      using concat_map_update_lower [OF i, of snd "(wid, c)"] t Cons
            concat_map_nth [of i ?ts' snd] i by auto
    have 1: "ledger_ready (files (analyzer_wallet_task E cfg wid w s))"
      using a(1) safe by (rule analyzer_wallet_task_ledger)
    have 2: "load_scanned_wallets (files (analyzer_wallet_task E cfg wid w s))
           = insert w (load_scanned_wallets (files s))"
      using a(1) safe by (rule analyzer_wallet_task_ledger)
    have 3: "\<forall>v \<in> set (concat (map snd ?ts')). ledger_safe v"
      using up a(2) by blast
    have 4: "\<forall>v \<in> W. v \<in> insert w (load_scanned_wallets (files s)) \<or>
                v \<in> set (concat (map snd ?ts'))"
      using low a(3) by blast
    show ?thesis
      unfolding step analyzer_recorded_def fst_conv snd_conv 2
      using 1 3 4 by blast
  qed
qed

lemma analyzer_recorded_run:
  "analyzer_recorded W p \<Longrightarrow> analyzer_recorded W (analyzer_pool_run E cfg sched p)"
  unfolding analyzer_pool_run_def
  by (rule foldl_invariant) (simp_all add: analyzer_recorded_step)

lemma distribute_loop_length:
  "distribute_loop n idx ws chunks = Inr r \<Longrightarrow> length r = length chunks"
proof (induction ws arbitrary: idx chunks)
  case Nil
  then show ?case by simp
next
  case (Cons w ws)
  from Cons.prems obtain chunks' where
    a: "chunk_append chunks (int idx mod n) w = Inr chunks'" and
    l: "distribute_loop n (Suc idx) ws chunks' = Inr r"
    by (auto split: if_splits sum.splits)
  from a have "length chunks' = length chunks"
    by (auto simp: chunk_append_def Let_def split: if_splits)
  with Cons.IH [OF l] show ?case by simp
qed

lemma concat_nonempty: "concat (filter (\<lambda>c. c \<noteq> []) xss) = concat xss"
  by (induction xss) simp_all

lemma worker_tasks_wallets:
  assumes "length chunks \<le> length pages"
  shows "concat (map snd (worker_tasks pages chunks)) = concat chunks"
proof -
  have "map snd (zip pages chunks) = chunks"
    using assms by (simp add: map_snd_zip_take)
  moreover have "map snd (worker_tasks pages chunks)
      = filter (\<lambda>c. c \<noteq> []) (map snd (zip pages chunks))"
    by (simp add: worker_tasks_def filter_map comp_def case_prod_unfold)
  ultimately show ?thesis by (simp add: concat_nonempty)
qed

lemma analyzer_distribute_wallets_all:
  assumes "analyzer_distribute_wallets ws (int n) = Inr chunks"
  shows "length chunks \<le> n" and "set (concat chunks) = set ws"
proof -
  show "length chunks \<le> n"
  proof (cases "ws = []")
    case True
    with assms show ?thesis by (simp add: analyzer_distribute_wallets_def)
  next
    case False
    with assms have "distribute_loop (min (int n) (int (length ws))) 0 ws
        (replicate (nat (min (int n) (int (length ws)))) []) = Inr chunks"
      by (simp add: analyzer_distribute_wallets_def Let_def)
    from distribute_loop_length [OF this] show ?thesis by simp
  qed
  show "set (concat chunks) = set ws"
  proof (cases "ws = []")
    case True
    with assms show ?thesis by (simp add: analyzer_distribute_wallets_def)
  next
    case False
    with assms have "distribute_loop (min (int n) (int (length ws))) 0 ws
        (replicate (nat (min (int n) (int (length ws)))) []) = Inr chunks"
      by (simp add: analyzer_distribute_wallets_def Let_def)
    from distribute_loop_mset [OF this] have "mset (concat chunks) = mset ws" by simp
    then show ?thesis by (rule mset_eq_setD)
  qed
qed

lemma analyzer_save_results_ledger [simp]:
  "scanned_file (files (analyzer_save_results s)) = scanned_file (files s)"
  "load_scanned_wallets (files (analyzer_save_results s)) = load_scanned_wallets (files s)"
  by (simp_all add: analyzer_save_results_def json_dump_def open_for_writing_def)

lemma analyzer_first_run_recorded:
  assumes "ledger_ready d" "list_all ledger_safe (wallets cfg)"
    "analyzer_run E sched cfg d = Some (sm, s1)" "success sm"
  shows "set (wallets cfg) \<subseteq> load_scanned_wallets (files s1)"
proof -
  let ?s0 = "snd (analyzer_load_unscanned_wallets cfg (initial_engine d))"
  let ?un = "fst (analyzer_load_unscanned_wallets cfg (initial_engine d))"
  have s0: "files ?s0 = d" "?un = filter (\<lambda>w. w \<notin> load_scanned_wallets d) (wallets cfg)"
    by (simp_all add: analyzer_load_unscanned_wallets_def initial_engine_def)
  have all: "\<forall>w \<in> set (wallets cfg). w \<in> load_scanned_wallets (files s1)"
  proof (cases "?un = []")
    case True
    with assms(3) have "s1 = ?s0" by (simp add: analyzer_run_def)
    with True s0 show ?thesis by (auto simp: filter_empty_conv)
  next
    case False
    from assms(4) have ns: "sm \<noteq> summary_of False s'" for s'
      by (auto simp: summary_of_def)
    from assms(3) False ns have r: "analyzer_run_workers E sched cfg ?s0
        (analyzer_distribute_wallets ?un (int (length (create_pages (num_pages cfg))))) = Some (sm, s1)"
      by (auto simp: analyzer_run_def split: if_splits)
    then obtain chunks where
      c: "analyzer_distribute_wallets ?un (int (length (create_pages (num_pages cfg)))) = Inr chunks"
      using ns
      by (cases "analyzer_distribute_wallets ?un (int (length (create_pages (num_pages cfg))))") auto
    let ?tasks = "worker_tasks (create_pages (num_pages cfg)) chunks"
    let ?p = "analyzer_pool_run E cfg sched (?s0, ?tasks)"
    from r c have "analyzer_gather ?p = Some (sm, s1)" by simp
    then have e: "s1 = analyzer_save_results (fst ?p)" "list_all (\<lambda>t. snd t = []) (snd ?p)"
      by (auto simp: analyzer_gather_def split: if_splits)
    have tw: "set (concat (map snd ?tasks)) = set ?un"
      using analyzer_distribute_wallets_all [OF c] by (simp add: worker_tasks_wallets)
    have safe: "\<forall>w \<in> set (wallets cfg). ledger_safe w"
      using assms(2) by (simp add: list_all_iff)
    have "analyzer_recorded (set (wallets cfg)) (?s0, ?tasks)"
      unfolding analyzer_recorded_def fst_conv snd_conv tw
      using assms(1) safe by (auto simp: s0)
    then have "analyzer_recorded (set (wallets cfg)) ?p" by (rule analyzer_recorded_run)
    moreover have "concat (map snd (snd ?p)) = []"
      using e(2) by (auto simp: list_all_iff)
    ultimately have "\<forall>w \<in> set (wallets cfg). w \<in> load_scanned_wallets (files (fst ?p))"
      by (simp add: analyzer_recorded_def)
    then show ?thesis by (simp add: e(1))
  qed
  then show ?thesis by blast
qed

lemma pending_update_upper:
  "set (pending (ts[i := x])) \<subseteq> set (pending ts) \<union> set (rest_of (snd x))"
  unfolding pending_def by (rule concat_map_update_upper)

lemma pending_nth: "i < length ts \<Longrightarrow> set (rest_of (snd (ts ! i))) \<subseteq> set (pending ts)"
  unfolding pending_def by (rule concat_map_nth)

lemma scanner_recorded_step:
  assumes "scanner_recorded W X p"
  shows "scanner_recorded W X (scanner_pool_step E cfg p i)"
proof -
  obtain s ts where p: "p = (s, ts)" by (cases p)
  from assms p have a: "ledger_ready (files s)"
    "\<And>w. w \<in> set (pending ts) \<Longrightarrow> ledger_safe w"
    "\<And>w. w \<in> W \<Longrightarrow> w \<in> scanned_wallets s \<or> w \<in> set (pending ts)"
    "scanned_wallets s \<subseteq> X \<union> load_scanned_wallets (files s)"
    by (auto simp: scanner_recorded_def)
  show ?thesis
  proof (cases rule: scanner_pool_step_cases [of E cfg s ts i])
    case idle
    with assms p show ?thesis by simp
  next
    case (skip pid w c)
    let ?ts' = "ts[i := (pid, Fetching c)]"
    have here: "set (w # c) \<subseteq> set (pending ts)"
      using pending_nth [OF skip(1)] skip(2) by simp
    have up: "set (pending ?ts') \<subseteq> set (pending ts)"
      using pending_update_upper [of ts i "(pid, Fetching c)"] here by auto
    have low: "set (pending ts) \<subseteq> insert w (set (pending ?ts'))"
      using pending_update_set [OF skip(1), of "(pid, Fetching c)"] skip(2)
            pending_nth [of i ?ts'] skip(1) by auto
    have 2: "\<forall>v \<in> set (pending ?ts'). ledger_safe v" using up a(2) by blast
    have 3: "\<forall>v \<in> W. v \<in> scanned_wallets s \<or> v \<in> set (pending ?ts')"
      using low a(3) skip(3) by blast
    show ?thesis
      unfolding p skip(4) scanner_recorded_def fst_conv snd_conv
      using a(1,4) 2 3 by simp
  next
    case (claim pid w c)
    let ?ts' = "ts[i := (pid, Evaluating w c)]"
    have here: "set (w # c) \<subseteq> set (pending ts)"
      using pending_nth [OF claim(1)] claim(2) by simp
    then have safe: "ledger_safe w" using a(2) by simp
    have up: "set (pending ?ts') \<subseteq> set (pending ts)"
      using pending_update_upper [of ts i "(pid, Evaluating w c)"] here by auto
    have low: "set (pending ts) \<subseteq> insert w (set (pending ?ts'))"
      using pending_update_set [OF claim(1), of "(pid, Evaluating w c)"] claim(2)
            pending_nth [of i ?ts'] claim(1) by auto
    have 1: "ledger_ready (save_scanned_wallet (files s) w (time_at E (length (trace s))))"
      using a(1) by (rule ready_after_save)
    have l: "load_scanned_wallets (save_scanned_wallet (files s) w (time_at E (length (trace s))))
        = insert w (load_scanned_wallets (files s))"
      using a(1) safe by (rule load_after_save)
    have 2: "\<forall>v \<in> set (pending ?ts'). ledger_safe v" using up a(2) by blast
    have 3: "\<forall>v \<in> W. v \<in> insert w (scanned_wallets s) \<or> v \<in> set (pending ?ts')"
      using low a(3) by blast
    have 4: "insert w (scanned_wallets s) \<subseteq> X \<union> insert w (load_scanned_wallets (files s))"
      using a(4) by blast
    show ?thesis
      unfolding p claim(4) scanner_recorded_def fst_conv snd_conv
      using 1 2 3 4 by (simp add: l)
  next
    case (finish pid w c)
    let ?ts' = "ts[i := (pid, Fetching c)]"
    obtain res m where r: "scanner_analyze_wallet (library E) cfg w (page_at E (length (trace s)) w) = (res, m)"
      by fastforce
    have f: "files (scanner_record E cfg pid w s) = files s"
      "scanned_wallets (scanner_record E cfg pid w s) = scanned_wallets s"
      using scanner_record_fields [OF r] by simp_all
    have here: "set c \<subseteq> set (pending ts)"
      using pending_nth [OF finish(1)] finish(2) by simp
    have up: "set (pending ?ts') \<subseteq> set (pending ts)"
      using pending_update_upper [of ts i "(pid, Fetching c)"] here by auto
    have low: "set (pending ts) \<subseteq> set (pending ?ts')"
      using pending_update_set [OF finish(1), of "(pid, Fetching c)"] finish(2)
            pending_nth [of i ?ts'] finish(1) by auto
    have 2: "\<forall>v \<in> set (pending ?ts'). ledger_safe v" using up a(2) by blast
    have 3: "\<forall>v \<in> W. v \<in> scanned_wallets s \<or> v \<in> set (pending ?ts')"
      using low a(3) by blast
    show ?thesis
      unfolding p finish(3) scanner_recorded_def fst_conv snd_conv f
      using a(1,4) 2 3 by simp
  qed
qed

lemma scanner_recorded_run:
  "scanner_recorded W X p \<Longrightarrow> scanner_recorded W X (scanner_pool_run E cfg sched p)"
  unfolding scanner_pool_run_def
  by (rule foldl_invariant) (simp_all add: scanner_recorded_step)

lemma scanner_distribute_wallets_all:
  assumes "scanner_distribute_wallets N ws = Inr chunks"
  shows "length chunks = nat N" and "set (concat chunks) = set ws"
proof -
  from assms have d: "distribute_loop N 0 ws (replicate (nat N) []) = Inr chunks"
    by (simp add: scanner_distribute_wallets_def)
  from distribute_loop_length [OF d] show "length chunks = nat N" by simp
  from distribute_loop_mset [OF d] have "mset (concat chunks) = mset ws" by simp
  then show "set (concat chunks) = set ws" by (rule mset_eq_setD)
qed

lemma pending_fetching:
  "pending (map (\<lambda>t. (fst t, Fetching (snd t))) ts) = concat (map snd ts)"
  by (simp add: pending_def comp_def)

lemma pending_done:
  "list_all (\<lambda>t. snd t = Fetching []) ts \<Longrightarrow> pending ts = []"
  by (auto simp: pending_def list_all_iff)

lemma load_existing_results_set:
  "load_existing_results d = set (map r_wallet (existing_results d))"
  by (simp add: load_existing_results_def existing_results_def split: option.splits)

lemma scanner_save_results_ledger:
  assumes "scanner_save_results s1 = Inr s"
  shows "load_scanned_wallets (files s) = load_scanned_wallets (files s1)"
    and "load_existing_results (files s1) \<subseteq> load_existing_results (files s)"
proof -
  from assms have c: "s = s1 \<or>
      s = s1\<lparr>files := (files s1)\<lparr>good_wallets_file := Some (existing_results (files s1) @ results s1)\<rparr>\<rparr>"
    by (auto simp: scanner_save_results_def json_dump_def open_for_writing_def split: if_splits)
  then show "load_scanned_wallets (files s) = load_scanned_wallets (files s1)"
    by auto
  from c show "load_existing_results (files s1) \<subseteq> load_existing_results (files s)"
    by (auto simp: load_existing_results_set) (auto simp: existing_results_def split: option.splits)
qed

lemma scanner_first_run_recorded:
  assumes "ledger_ready d" "list_all ledger_safe W"
    "scanner_run E sched cfg W d = Some (Inr s1)"
  shows "set W \<subseteq> load_existing_results (files s1) \<union> load_scanned_wallets (files s1)"
proof -
  let ?s0 = "scanner_load_scanned d"
  let ?un = "filter (\<lambda>w. w \<notin> scanned_wallets ?s0) W"
  have s0: "files ?s0 = d"
    "scanned_wallets ?s0 = load_existing_results d \<union> load_scanned_wallets d"
    by (simp_all add: scanner_load_scanned_def initial_engine_def TRACKING_AVAILABLE_def)
  have "\<forall>w \<in> set W. w \<in> load_existing_results (files s1) \<union> load_scanned_wallets (files s1)"
  proof (cases "W = [] \<or> ?un = []")
    case True
    with assms(3) have "W = [] \<or> (?un = [] \<and> s1 = ?s0)"
      by (auto simp: scanner_run_def split: if_splits)
    then show ?thesis
      using s0 by (auto simp: filter_empty_conv)
  next
    case False
    from False assms(3) have r: "scanner_run_workers E sched cfg ?s0
        (scanner_distribute_wallets (sc_num_pages cfg) ?un) = Some (Inr s1)"
      by (simp add: scanner_run_def)
    then obtain chunks where c: "scanner_distribute_wallets (sc_num_pages cfg) ?un = Inr chunks"
      by (cases "scanner_distribute_wallets (sc_num_pages cfg) ?un") simp_all
    let ?tasks = "map (\<lambda>t. (fst t, Fetching (snd t)))
                    (worker_tasks (create_pages (sc_num_pages cfg)) chunks)"
    let ?p = "scanner_pool_run E cfg sched (?s0, ?tasks)"
    from r c have g: "scanner_gather ?p = Some (Inr s1)"
      by (simp split: if_splits)
    then have sv: "scanner_save_results (fst ?p) = Inr s1"
      and fin: "list_all (\<lambda>t. snd t = Fetching []) (snd ?p)"
      by (simp_all add: scanner_gather_def split: if_splits)
    have "length chunks \<le> length (create_pages (sc_num_pages cfg))"
      using scanner_distribute_wallets_all(1) [OF c] by (simp add: create_pages_def)
    then have tw: "set (pending ?tasks) = set ?un"
      using scanner_distribute_wallets_all(2) [OF c]
      by (simp only: pending_fetching worker_tasks_wallets)
    have safe: "\<forall>w \<in> set W. ledger_safe w"
      using assms(2) by (simp add: list_all_iff)
    have "scanner_recorded (set W) (load_existing_results d) (?s0, ?tasks)"
      unfolding scanner_recorded_def fst_conv snd_conv tw
      using assms(1) safe by (auto simp: s0)
    then have "scanner_recorded (set W) (load_existing_results d) ?p"
      by (rule scanner_recorded_run)
    then have "\<forall>w \<in> set W. w \<in> scanned_wallets (fst ?p)"
      and sub: "scanned_wallets (fst ?p)
                  \<subseteq> load_existing_results d \<union> load_scanned_wallets (files (fst ?p))"
      using pending_done [OF fin] by (simp_all add: scanner_recorded_def)
    then have 1: "\<forall>w \<in> set W. w \<in> load_existing_results d \<union> load_scanned_wallets (files (fst ?p))"
      by blast
    have "same_results_file d (files (fst (?s0, ?tasks)))"
      by (simp add: same_results_file_def s0)
    then have same: "same_results_file d (files (fst ?p))"
      by (rule same_results_file_run)
    have "load_existing_results (files (fst ?p)) = load_existing_results d"
      using existing_results_same [OF same] by (simp add: load_existing_results_set)
    with scanner_save_results_ledger [OF sv] 1 show ?thesis by auto
  qed
  then show ?thesis by blast
qed

text \<open>
  Claim C5, as amended. Let the ledger be in working order and let every address of \<open>W\<close> fit
  its line format. In the analyzer: after a run on \<open>W\<close> that has returned with success, every
  address of \<open>W\<close> is in the ledger, and a second run on \<open>W\<close> from the files the first one has
  left, whatever its pages, thresholds, schedule and environment, returns the summary of
  nothing to scan: it has processed nothing, has called neither \<^verbatim>\<open>analyze_wallet\<close> nor
  \<^verbatim>\<open>save_scanned_wallet\<close>, and has left the files as they were. In the scanner: after a run on
  \<open>W\<close> that has returned, every address of \<open>W\<close> is in the ledger or in the result file, and a
  second run on \<open>W\<close> from these files returns with nothing processed, in the same way.
\<close>

theorem second_run_processes_nothing:
  assumes "ledger_ready d" "list_all ledger_safe W"
  shows "(wallets cfg = W \<and> wallets cfg' = W \<and>
          analyzer_run E sched cfg d = Some (sm, s1) \<and> success sm \<longrightarrow>
            set W \<subseteq> load_scanned_wallets (files s1) \<and>
            (\<exists>s. analyzer_run E' sched' cfg' (files s1)
                    = Some (\<lparr>success = True, total_scanned = 0, sm_total_passed = 0,
                              good_wallets = []\<rparr>, s) \<and>
                 total_processed s = 0 \<and> trace s = [] \<and> files s = files s1)) \<and>
         (scanner_run E sched scfg W d = Some (Inr s2) \<longrightarrow>
            set W \<subseteq> load_existing_results (files s2) \<union> load_scanned_wallets (files s2) \<and>
            (\<exists>s. scanner_run E' sched' scfg' W (files s2) = Some (Inr s) \<and>
                 total_processed s = 0 \<and> trace s = [] \<and> files s = files s2))"
proof -
  have 1: "wallets cfg = W \<and> wallets cfg' = W \<and>
          analyzer_run E sched cfg d = Some (sm, s1) \<and> success sm \<longrightarrow>
            set W \<subseteq> load_scanned_wallets (files s1) \<and>
            (\<exists>s. analyzer_run E' sched' cfg' (files s1)
                    = Some (\<lparr>success = True, total_scanned = 0, sm_total_passed = 0,
                              good_wallets = []\<rparr>, s) \<and>
                 total_processed s = 0 \<and> trace s = [] \<and> files s = files s1)"
  proof (intro impI, elim conjE)
    assume a: "wallets cfg = W" "wallets cfg' = W"
      "analyzer_run E sched cfg d = Some (sm, s1)" "success sm"
    have sub: "set W \<subseteq> load_scanned_wallets (files s1)"
      using analyzer_first_run_recorded [OF assms(1) _ a(3,4)] assms(2) a(1) by simp
    then have "fst (analyzer_load_unscanned_wallets cfg' (initial_engine (files s1))) = []"
      by (auto simp: analyzer_load_unscanned_wallets_def initial_engine_def a(2) filter_empty_conv)
    then have "analyzer_run E' sched' cfg' (files s1)
        = Some (\<lparr>success = True, total_scanned = 0, sm_total_passed = 0, good_wallets = []\<rparr>,
                snd (analyzer_load_unscanned_wallets cfg' (initial_engine (files s1))))"
      by (simp add: analyzer_run_def)
    moreover have "total_processed (snd (analyzer_load_unscanned_wallets cfg' (initial_engine (files s1)))) = 0"
      "trace (snd (analyzer_load_unscanned_wallets cfg' (initial_engine (files s1)))) = []"
      "files (snd (analyzer_load_unscanned_wallets cfg' (initial_engine (files s1)))) = files s1"
      by (simp_all add: analyzer_load_unscanned_wallets_def initial_engine_def)
    ultimately show "set W \<subseteq> load_scanned_wallets (files s1) \<and>
            (\<exists>s. analyzer_run E' sched' cfg' (files s1)
                    = Some (\<lparr>success = True, total_scanned = 0, sm_total_passed = 0,
                              good_wallets = []\<rparr>, s) \<and>
                 total_processed s = 0 \<and> trace s = [] \<and> files s = files s1)"
      using sub by blast
  qed
  have 2: "scanner_run E sched scfg W d = Some (Inr s2) \<longrightarrow>
            set W \<subseteq> load_existing_results (files s2) \<union> load_scanned_wallets (files s2) \<and>
            (\<exists>s. scanner_run E' sched' scfg' W (files s2) = Some (Inr s) \<and>
                 total_processed s = 0 \<and> trace s = [] \<and> files s = files s2)"
  proof
    assume a: "scanner_run E sched scfg W d = Some (Inr s2)"
    have sub: "set W \<subseteq> load_existing_results (files s2) \<union> load_scanned_wallets (files s2)"
      using assms a by (rule scanner_first_run_recorded)
    have "scanned_wallets (scanner_load_scanned (files s2))
        = load_existing_results (files s2) \<union> load_scanned_wallets (files s2)"
      by (simp add: scanner_load_scanned_def TRACKING_AVAILABLE_def)
    with sub have f: "filter (\<lambda>w. w \<notin> scanned_wallets (scanner_load_scanned (files s2))) W = []"
      by (auto simp: filter_empty_conv)
    have "scanner_run E' sched' scfg' W (files s2)
        = Some (Inr (if W = [] then initial_engine (files s2) else scanner_load_scanned (files s2)))"
      by (simp add: scanner_run_def f)
    moreover have "total_processed (if W = [] then initial_engine (files s2) else scanner_load_scanned (files s2)) = 0"
      "trace (if W = [] then initial_engine (files s2) else scanner_load_scanned (files s2)) = []"
      "files (if W = [] then initial_engine (files s2) else scanner_load_scanned (files s2)) = files s2"
      by (simp_all add: scanner_load_scanned_def initial_engine_def)
    ultimately show "set W \<subseteq> load_existing_results (files s2) \<union> load_scanned_wallets (files s2) \<and>
            (\<exists>s. scanner_run E' sched' scfg' W (files s2) = Some (Inr s) \<and>
                 total_processed s = 0 \<and> trace s = [] \<and> files s = files s2)"
      using sub by blast
  qed
  show ?thesis by (intro conjI 1 2)
qed

text \<open>
  Two wallets on two pages, from files that do not exist yet: the first run processes both,
  the second one none.
\<close>

theorem second_run_processes_nothing_witness:
  "ledger_ready empty_disk \<and> list_all ledger_safe [''w0'', ''w1''] \<and>
   (case analyzer_run sample_env [0, 1] (sample_analyzer_config [''w0'', ''w1'']) empty_disk of
      None \<Rightarrow> False
    | Some (sm, s1) \<Rightarrow>
        success sm \<and> total_scanned sm = 2 \<and>
        map_option (\<lambda>r. total_scanned (fst r))
          (analyzer_run sample_env [] (sample_analyzer_config [''w0'', ''w1'']) (files s1))
          = Some 0) \<and>
   (case scanner_run sample_env [0, 0, 1, 1] sample_scanner_config [''w0'', ''w1''] empty_disk of
      Some (Inr s2) \<Rightarrow>
        total_processed s2 = 2 \<and>
        (case scanner_run sample_env [] sample_scanner_config [''w0'', ''w1''] (files s2) of
           Some (Inr s) \<Rightarrow> total_processed s = 0 | _ \<Rightarrow> False)
    | _ \<Rightarrow> False)"
proof -
  let ?cfg = "sample_analyzer_config [''w0'', ''w1'']"
  let ?r1 = "analyzer_run sample_env [0, 1] ?cfg empty_disk"
  let ?r2 = "scanner_run sample_env [0, 0, 1, 1] sample_scanner_config [''w0'', ''w1''] empty_disk"
  have h: "ledger_ready empty_disk" "list_all ledger_safe [''w0'', ''w1'']"
    by code_simp+
  have w: "wallets ?cfg = [''w0'', ''w1'']"
    by (simp add: sample_analyzer_config_def)
  have e1: "case ?r1 of None \<Rightarrow> False | Some (sm, s1) \<Rightarrow> success sm \<and> total_scanned sm = 2"
    by code_simp
  then obtain sm s1 where r1: "?r1 = Some (sm, s1)" and ok: "success sm" "total_scanned sm = 2"
    by (cases ?r1) auto
  from second_run_processes_nothing [OF h, THEN conjunct1, of ?cfg ?cfg sample_env "[0, 1]" sm s1
      sample_env "[]"] w r1 ok(1)
  obtain s where "analyzer_run sample_env [] ?cfg (files s1)
      = Some (\<lparr>success = True, total_scanned = 0, sm_total_passed = 0, good_wallets = []\<rparr>, s)"
    by blast
  then have a: "map_option (\<lambda>r. total_scanned (fst r)) (analyzer_run sample_env [] ?cfg (files s1))
      = Some 0"
    by simp
  have A: "case ?r1 of None \<Rightarrow> False
    | Some (sm, s1) \<Rightarrow>
        success sm \<and> total_scanned sm = 2 \<and>
        map_option (\<lambda>r. total_scanned (fst r)) (analyzer_run sample_env [] ?cfg (files s1)) = Some 0"
    by (simp only: r1 option.case prod.case ok a)
  have e2: "case ?r2 of Some (Inr s2) \<Rightarrow> total_processed s2 = 2 | _ \<Rightarrow> False"
    by code_simp
  then obtain s2 where r2: "?r2 = Some (Inr s2)" and p2: "total_processed s2 = 2"
    by (cases ?r2) (auto split: sum.splits)
  from second_run_processes_nothing [OF h, THEN conjunct2, of sample_env "[0, 0, 1, 1]"
      sample_scanner_config s2 sample_env "[]" sample_scanner_config] r2
  obtain s' where "scanner_run sample_env [] sample_scanner_config [''w0'', ''w1''] (files s2)
      = Some (Inr s')" "total_processed s' = 0"
    by blast
  then have b: "case scanner_run sample_env [] sample_scanner_config [''w0'', ''w1''] (files s2) of
           Some (Inr s) \<Rightarrow> total_processed s = 0 | _ \<Rightarrow> False"
    by simp
  have B: "case ?r2 of
      Some (Inr s2) \<Rightarrow>
        total_processed s2 = 2 \<and>
        (case scanner_run sample_env [] sample_scanner_config [''w0'', ''w1''] (files s2) of
           Some (Inr s) \<Rightarrow> total_processed s = 0 | _ \<Rightarrow> False)
    | _ \<Rightarrow> False"
    by (simp only: r2 option.case sum.case p2 b)
  show ?thesis
    by (intro conjI h A B)
qed

text \<open>
  Claim C5 as stated fails. When the ledger cannot be written, \<^verbatim>\<open>save_scanned_wallet\<close>
  swallows the exception: the first run of the analyzer succeeds, there is no ledger after
  it, and the second run evaluates the wallet again. An address with a \<^verbatim>\<open>|\<close> is written to the
  ledger as it is and read back up to the first \<^verbatim>\<open>|\<close>: the first run records \<^verbatim>\<open>a|b|19\<close>, which
  \<^verbatim>\<open>load_scanned_wallets\<close> reads as the address \<^verbatim>\<open>a\<close>, and the second run evaluates \<^verbatim>\<open>a|b\<close>
  again, in the analyzer and in the scanner.
\<close>

theorem second_run_counterexample:
  "(case analyzer_run sample_env [0] (sample_analyzer_config [''w0''])
           (empty_disk\<lparr>scanned_writable := False\<rparr>) of
      None \<Rightarrow> None
    | Some (sm, s1) \<Rightarrow>
        Some (success sm, total_scanned sm, scanned_file (files s1),
              map_option (\<lambda>r. (success (fst r), total_scanned (fst r)))
                (analyzer_run sample_env [0] (sample_analyzer_config [''w0'']) (files s1))))
     = Some (True, 1, None, Some (True, 1)) \<and>
   (case analyzer_run sample_env [0] (sample_analyzer_config [''a|b'']) empty_disk of
      None \<Rightarrow> None
    | Some (sm, s1) \<Rightarrow>
        Some (success sm, total_scanned sm, scanned_file (files s1),
              map_option (\<lambda>r. (success (fst r), total_scanned (fst r)))
                (analyzer_run sample_env [0] (sample_analyzer_config [''a|b'']) (files s1))))
     = Some (True, 1, Some (''a|b|19'' @ [CHR 0x0A]), Some (True, 1)) \<and>
   (case scanner_run sample_env [0, 0] sample_scanner_config [''a|b''] empty_disk of
      Some (Inr s2) \<Rightarrow>
        Some (total_processed s2,
              case scanner_run sample_env [0, 0] sample_scanner_config [''a|b''] (files s2) of
                Some (Inr s) \<Rightarrow> Some (total_processed s) | _ \<Rightarrow> None)
    | _ \<Rightarrow> None)
     = Some (1, Some 1)"
  by code_simp

end
